theory Spec2Isabelle
  imports Main
begin

section \<open>JavaScript strings and arrays\<close>

text \<open>
  A string is the list of its code units. Only the code units up to U+00FF are modelled
  (one \<^typ>\<open>char\<close> each); on that range \<open>String.prototype.toLowerCase\<close> moves
  \<open>A\<close>..\<open>Z\<close> and U+00C0..U+00DE (without the multiplication sign U+00D7) up by 32
  and leaves every other code unit alone.
\<close>

definition toLowerCase_char :: "char \<Rightarrow> char" where
  "toLowerCase_char c =
     (let n = (of_char c :: nat)
      in if (65 \<le> n \<and> n \<le> 90) \<or> (192 \<le> n \<and> n \<le> 222 \<and> n \<noteq> 215)
         then char_of (n + 32) else c)"

definition toLowerCase :: "string \<Rightarrow> string" where
  "toLowerCase s = map toLowerCase_char s"

text \<open>
  \<open>String.prototype.toUpperCase\<close> on the same range: \<open>a\<close>..\<open>z\<close> and U+00E0..U+00FE
  (without the division sign U+00F7) move down by 32, and the sharp s U+00DF becomes
  \<open>SS\<close>. The micro sign U+00B5 and U+00FF are the two code units of the range whose
  upper-case forms (U+039C and U+0178) lie above U+00FF; strings with them are outside
  the model. The scraper applies \<open>toUpperCase\<close> to the team code only.
\<close>

definition toUpperCase_char :: "char \<Rightarrow> string" where
  "toUpperCase_char c =
     (let n = (of_char c :: nat)
      in if (97 \<le> n \<and> n \<le> 122) \<or> (224 \<le> n \<and> n \<le> 254 \<and> n \<noteq> 247)
         then [char_of (n - 32)]
         else if n = 223 then ''SS'' else [c])"

definition toUpperCase :: "string \<Rightarrow> string" where
  "toUpperCase s = concat (map toUpperCase_char s)"

text \<open>
  \<open>String.prototype.trim\<close> removes white space and line terminators from both ends;
  below U+0100 these are TAB, LF, VT, FF, CR, SP and NBSP.
\<close>

definition is_space :: "char \<Rightarrow> bool" where
  "is_space c = ((of_char c :: nat) \<in> {9, 10, 11, 12, 13, 32, 160})"

definition trim :: "string \<Rightarrow> string" where
  "trim s = rev (dropWhile is_space (rev (dropWhile is_space s)))"

text \<open>\<open>needle\<close> occurs at the very start of the text.\<close>

fun starts_with :: "string \<Rightarrow> string \<Rightarrow> bool" where
  "starts_with s [] = True"
| "starts_with [] (n # ns) = False"
| "starts_with (c # cs) (n # ns) = (c = n \<and> starts_with cs ns)"

text \<open>\<open>String.prototype.includes\<close>: the needle occurs somewhere in the text.\<close>

fun includes_str :: "string \<Rightarrow> string \<Rightarrow> bool" where
  "includes_str [] needle = (needle = [])"
| "includes_str (c # cs) needle = (starts_with (c # cs) needle \<or> includes_str cs needle)"

text \<open>
  \<open>Array.prototype.findIndex\<close>; the result \<open>-1\<close> is \<open>None\<close>.
\<close>

fun findIndex :: "('a \<Rightarrow> bool) \<Rightarrow> 'a list \<Rightarrow> nat option" where
  "findIndex P [] = None"
| "findIndex P (x # xs) = (if P x then Some 0 else map_option Suc (findIndex P xs))"

text \<open>
  Reading \<open>xs[i]\<close>: \<open>undefined\<close> (here \<open>None\<close>) outside the array.
\<close>

definition js_index :: "'a list \<Rightarrow> nat \<Rightarrow> 'a option" where
  "js_index xs i = (if i < length xs then Some (xs ! i) else None)"

text \<open>\<open>Array.prototype.slice(start, end)\<close> for indices that are not negative.\<close>

definition slice :: "'a list \<Rightarrow> nat \<Rightarrow> nat \<Rightarrow> 'a list" where
  "slice xs start stop = take (stop - start) (drop start xs)"


section \<open>The depth chart\<close>

text \<open>
  One player of a position: \<open>{depth, name, espnId, injuryStatus}\<close>. The id is absent
  when the link has no target or the target has no id; the status is \<open>'OUT'\<close>,
  \<open>'DAY-TO-DAY'\<close> or \<open>null\<close>.
\<close>

record entry =
  depth :: nat
  name :: string
  espnId :: "string option"
  injuryStatus :: "string option"

text \<open>
  \<open>{team, timestamp, positions}\<close>. The field \<open>positions\<close> is a plain object; it is kept
  as the list of its own properties in the order in which \<open>Object.entries\<close> lists them.
\<close>

record depthChart =
  team :: string
  timestamp :: string
  positions :: "(string \<times> entry list) list"


section \<open>getBackupForPlayer\<close>

record backupInfo =
  position :: string
  injuredPlayer :: entry
  primaryBackup :: "entry option"
  allBackups :: "entry list"

text \<open>The predicate handed to \<open>findIndex\<close>.\<close>

definition name_matches :: "string \<Rightarrow> entry \<Rightarrow> bool" where
  "name_matches playerName p = includes_str (toLowerCase (name p)) (toLowerCase playerName)"

text \<open>The \<open>for ... of Object.entries(depthChart.positions)\<close> loop.\<close>

fun backup_loop :: "(string \<times> entry list) list \<Rightarrow> string \<Rightarrow> backupInfo option" where
  "backup_loop [] playerName = None"
| "backup_loop ((pos, players) # rest) playerName =
     (case findIndex (name_matches playerName) players of
        Some playerIndex \<Rightarrow>
          Some \<lparr>position = pos,
                injuredPlayer = players ! playerIndex,
                primaryBackup = js_index players (playerIndex + 1),
                allBackups = slice players (playerIndex + 1) (playerIndex + 4)\<rparr>
      | None \<Rightarrow> backup_loop rest playerName)"

definition getBackupForPlayer :: "depthChart \<Rightarrow> string \<Rightarrow> backupInfo option" where
  "getBackupForPlayer depthChart playerName = backup_loop (positions depthChart) playerName"


section \<open>Plain objects as ordered property lists\<close>

text \<open>
  \<open>depthChart.positions\<close> is written with \<open>positions[key] = []\<close> and read back with
  \<open>Object.entries\<close>, which lists the own properties: first the keys that are array
  indices (canonical decimal numerals below \<open>2^32 - 1\<close>) in ascending numeric order, then
  the other string keys in the order of their creation. An assignment to a key that is
  already there keeps its place. The key \<open>__proto__\<close> is the one key for which the
  assignment creates no own property (it replaces the prototype), so it never shows
  up in \<open>Object.entries\<close>.
\<close>

definition is_digit :: "char \<Rightarrow> bool" where
  "is_digit c = (48 \<le> (of_char c :: nat) \<and> (of_char c :: nat) \<le> 57)"

definition digits_val :: "string \<Rightarrow> int" where
  "digits_val s = foldl (\<lambda>n c. 10 * n + ((of_char c :: int) - 48)) 0 s"

definition is_array_index :: "string \<Rightarrow> bool" where
  "is_array_index k =
     (case k of
        [] \<Rightarrow> False
      | c # cs \<Rightarrow> list_all is_digit k \<and> (cs = [] \<or> c \<noteq> CHR ''0'') \<and> digits_val k < 4294967295)"

fun insert_index :: "int \<Rightarrow> string \<Rightarrow> 'v \<Rightarrow> (string \<times> 'v) list \<Rightarrow> (string \<times> 'v) list" where
  "insert_index n k v [] = [(k, v)]"
| "insert_index n k v ((k', v') # rest) =
     (if is_array_index k' \<and> digits_val k' < n
      then (k', v') # insert_index n k v rest
      else (k, v) # (k', v') # rest)"

fun replace_value :: "string \<Rightarrow> 'v \<Rightarrow> (string \<times> 'v) list \<Rightarrow> (string \<times> 'v) list" where
  "replace_value k v [] = []"
| "replace_value k v ((k', v') # rest) =
     (if k' = k then (k', v) # rest else (k', v') # replace_value k v rest)"

text \<open>\<open>obj[k] = v\<close>.\<close>

definition js_set :: "string \<Rightarrow> 'v \<Rightarrow> (string \<times> 'v) list \<Rightarrow> (string \<times> 'v) list" where
  "js_set k v obj =
     (if k = ''__proto__'' then obj
      else case map_of obj k of
             Some old \<Rightarrow> replace_value k v obj
           | None \<Rightarrow> if is_array_index k then insert_index (digits_val k) k v obj
                     else obj @ [(k, v)])"

text \<open>
  \<open>obj[k].push(e)\<close> for a key that was assigned an array before. The array is changed
  in place; when it is not an own property (the key \<open>__proto__\<close>) the own properties
  stay as they are.
\<close>

definition js_push :: "string \<Rightarrow> 'e \<Rightarrow> (string \<times> 'e list) list \<Rightarrow> (string \<times> 'e list) list" where
  "js_push k e obj =
     (case map_of obj k of
        Some es \<Rightarrow> replace_value k (es @ [e]) obj
      | None \<Rightarrow> obj)"


section \<open>The page\<close>

text \<open>
  The page is what the cheerio selections of the scraper see of it. \<open>$('.Table')\<close> is
  the list of tables (none of them inside another); of a table, \<open>find('thead tr')\<close> are
  the header rows, each the texts of its \<open>th\<close> cells, and \<open>find('tbody tr')\<close> the body
  rows, each the list of its \<open>td\<close> cells. Of a cell, \<open>text()\<close> is its whole text and
  \<open>find('a')\<close> its links; of a link, \<open>text()\<close> and the attribute \<open>href\<close>, if it has one.
\<close>

record link =
  link_text :: string
  href :: "string option"

record cell =
  cell_text :: string
  links :: "link list"

record table =
  thead_rows :: "string list list"
  tbody_rows :: "cell list list"

type_synonym page = "table list"

text \<open>A thrown \<open>Error\<close> with its message.\<close>

datatype error = Error string


section \<open>scrapeESPNDepthChart\<close>

text \<open>
  \<open>playerUrl.match(/\/id\/(\d+)\//)?.[1]\<close>: the digits of the leftmost
  \<open>/id/<digits>/\<close> in the link target. At one place the pattern can only match with
  all the digits that follow \<open>/id/\<close>, since the character after them has to be \<open>/\<close>.
\<close>

definition match_id_here :: "string \<Rightarrow> string option" where
  "match_id_here s =
     (if starts_with s ''/id/''
      then (let r = drop 4 s; ds = takeWhile is_digit r
            in if ds \<noteq> [] \<and> starts_with (dropWhile is_digit r) ''/'' then Some ds else None)
      else None)"

fun match_id :: "string \<Rightarrow> string option" where
  "match_id [] = None"
| "match_id (c # cs) =
     (case match_id_here (c # cs) of Some ds \<Rightarrow> Some ds | None \<Rightarrow> match_id cs)"

text \<open>
  The body of the \<open>td\<close> loop for one cell: the entry a cell with a link contributes.
  With several links in the cell, \<open>$link.text()\<close> joins their texts and
  \<open>$link.attr('href')\<close> reads the first one. A missing or empty target gives no id.
\<close>

definition cell_entry :: "nat \<Rightarrow> cell \<Rightarrow> entry option" where
  "cell_entry colIndex c =
     (case links c of
        [] \<Rightarrow> None
      | l # ls \<Rightarrow>
          Some \<lparr>depth = colIndex + 1,
                name = trim (concat (map link_text (l # ls))),
                espnId = (case href l of
                            None \<Rightarrow> None
                          | Some playerUrl \<Rightarrow> if playerUrl = [] then None else match_id playerUrl),
                injuryStatus = (if includes_str (cell_text c) ''O'' then Some ''OUT''
                                else if includes_str (cell_text c) ''DD'' then Some ''DAY-TO-DAY''
                                else None)\<rparr>)"

text \<open>\<open>$(row).find('td').each((colIndex, cell) => ...)\<close>, from \<open>colIndex\<close> on.\<close>

fun each_cell ::
  "string \<Rightarrow> nat \<Rightarrow> cell list \<Rightarrow> (string \<times> entry list) list \<Rightarrow> (string \<times> entry list) list" where
  "each_cell pos colIndex [] obj = obj"
| "each_cell pos colIndex (c # cs) obj =
     each_cell pos (colIndex + 1) cs
       (case cell_entry colIndex c of None \<Rightarrow> obj | Some e \<Rightarrow> js_push pos e obj)"

text \<open>
  \<open>table.find('tbody tr').each((rowIndex, row) => ...)\<close>, from \<open>rowIndex\<close> on. A row
  whose index has no label (\<open>!position\<close>) is left out.
\<close>

fun each_row ::
  "string list \<Rightarrow> nat \<Rightarrow> cell list list \<Rightarrow> (string \<times> entry list) list \<Rightarrow> (string \<times> entry list) list" where
  "each_row labels rowIndex [] obj = obj"
| "each_row labels rowIndex (row # rows) obj =
     each_row labels (rowIndex + 1) rows
       (case js_index labels rowIndex of
          None \<Rightarrow> obj
        | Some pos \<Rightarrow> if pos = [] then obj else each_cell pos 0 row (js_set pos [] obj))"

text \<open>
  The \<open>th\<close> loop over the first header row, pushing to \<open>positions\<close> (here the
  accumulator).
\<close>

fun each_th :: "string list \<Rightarrow> string list \<Rightarrow> string list" where
  "each_th [] acc = acc"
| "each_th (el # els) acc =
     (let text = trim el
      in each_th els
           (if text \<noteq> [] \<and> text \<noteq> ''Starter'' \<and> text \<noteq> ''2nd'' \<and> text \<noteq> ''3rd''
               \<and> text \<noteq> ''4th'' \<and> text \<noteq> ''5th''
            then acc @ [text] else acc))"

text \<open>\<open>table.find('thead tr').first().find('th')\<close>: nothing when there is no header row.\<close>

definition first_header :: "page \<Rightarrow> string list" where
  "first_header tables = (case concat (map thead_rows tables) of [] \<Rightarrow> [] | r # rs \<Rightarrow> r)"

text \<open>
  The part of the scraper after \<open>cheerio.load\<close>: from the tables of the page to the
  chart, or the thrown error when there is no table. \<open>isoNow\<close> is the value of
  \<open>new Date().toISOString()\<close>.
\<close>

definition parse_tables :: "string \<Rightarrow> page \<Rightarrow> string \<Rightarrow> error + depthChart" where
  "parse_tables teamAbbr tables isoNow =
     (if tables = [] then Inl (Error ''Could not find depth chart table'')
      else Inr \<lparr>team = toUpperCase teamAbbr,
                timestamp = isoNow,
                positions = each_row (each_th (first_header tables) []) 0
                              (concat (map tbody_rows tables)) []\<rparr>)"

text \<open>
  What one call meets outside: the answer of the network to a URL (a rejection of
  \<open>axios.get\<close>, or the page), the ISO time of the parse, and \<open>Date.now()\<close> at the
  freshness check of the cache and again when a record is stored.
\<close>

record world =
  httpGet :: "string \<Rightarrow> error + page"
  isoNow :: string
  nowCheck :: int
  nowStore :: int

definition depth_url :: "string \<Rightarrow> string" where
  "depth_url teamAbbr = ''https://www.espn.com/nba/team/depth/_/name/'' @ teamAbbr"

text \<open>
  The scraper sends one request, recorded in the list of the URLs requested so far, and
  parses the answer. Every error is logged and thrown again.
\<close>

definition scrapeESPNDepthChart ::
  "string \<Rightarrow> world \<Rightarrow> string list \<Rightarrow> (error + depthChart) \<times> string list" where
  "scrapeESPNDepthChart teamAbbr w requested =
     (let url = depth_url teamAbbr
      in (case httpGet w url of
            Inl e \<Rightarrow> Inl e
          | Inr tables \<Rightarrow> parse_tables teamAbbr tables (isoNow w),
          requested @ [url]))"


section \<open>getTeamDepthChart\<close>

text \<open>
  The team ids are the numeric ids of the statistics service (\<open>player.team_id\<close>).
\<close>

definition TEAM_ID_TO_ESPN :: "int \<Rightarrow> string option" where
  "TEAM_ID_TO_ESPN = map_of
     [(1, ''atl''), (2, ''bos''), (3, ''bkn''), (4, ''cha''), (5, ''chi''), (6, ''cle''),
      (7, ''dal''), (8, ''den''), (9, ''det''), (10, ''gs''), (11, ''hou''), (12, ''ind''),
      (13, ''lac''), (14, ''lal''), (15, ''mem''), (16, ''mia''), (17, ''mil''), (18, ''min''),
      (19, ''no''), (20, ''ny''), (21, ''okc''), (22, ''orl''), (23, ''phi''), (24, ''phx''),
      (25, ''por''), (26, ''sac''), (27, ''sa''), (28, ''tor''), (29, ''utah''), (30, ''wsh'')]"

definition CACHE_TTL :: int where
  "CACHE_TTL = 6 * 60 * 60 * 1000"

text \<open>A value of \<open>depthChartCache\<close>: \<open>{data, timestamp}\<close>, the time in milliseconds.\<close>

record cacheRecord =
  data :: depthChart
  cachedAt :: int

text \<open>
  The module state: the cache, and the list of the URLs requested so far.
\<close>

record state =
  depthChartCache :: "string \<rightharpoonup> cacheRecord"
  requests :: "string list"

text \<open>The record of a key when it is there and still fresh.\<close>

definition fresh :: "world \<Rightarrow> state \<Rightarrow> string \<Rightarrow> cacheRecord option" where
  "fresh w st cacheKey =
     (case depthChartCache st cacheKey of
        None \<Rightarrow> None
      | Some cached \<Rightarrow> if nowCheck w - cachedAt cached < CACHE_TTL then Some cached else None)"

definition getTeamDepthChart :: "int \<Rightarrow> world \<Rightarrow> state \<Rightarrow> depthChart option \<times> state" where
  "getTeamDepthChart teamId w st =
     (case TEAM_ID_TO_ESPN teamId of
        None \<Rightarrow> (None, st)
      | Some espnCode \<Rightarrow>
          (case fresh w st espnCode of
             Some cached \<Rightarrow> (Some (data cached), st)
           | None \<Rightarrow>
               (case scrapeESPNDepthChart espnCode w (requests st) of
                  (Inr chart, requested) \<Rightarrow>
                    (Some chart,
                     \<lparr>depthChartCache =
                        (depthChartCache st)(espnCode \<mapsto> \<lparr>data = chart, cachedAt = nowStore w\<rparr>),
                      requests = requested\<rparr>)
                | (Inl e, requested) \<Rightarrow>
                    (None, st\<lparr>requests := requested\<rparr>))))"


section \<open>Reference formulations\<close>

text \<open>All the entries of a chart with their positions, position after position.\<close>

definition flat_entries :: "(string \<times> entry list) list \<Rightarrow> (string \<times> entry) list" where
  "flat_entries ps = concat (map (\<lambda>(pos, players). map (Pair pos) players) ps)"

text \<open>The header texts that are rank labels, and the test for a position label.\<close>

definition rank_tokens :: "string set" where
  "rank_tokens = {''Starter'', ''2nd'', ''3rd'', ''4th'', ''5th''}"

definition is_label :: "string \<Rightarrow> bool" where
  "is_label t = (t \<noteq> [] \<and> t \<notin> rank_tokens)"

text \<open>
  The entries of one body row: the cells with a link, in cell order, each with its
  column index among all the cells of the row.
\<close>

definition row_entries :: "cell list \<Rightarrow> entry list" where
  "row_entries row = List.map_filter (\<lambda>j. cell_entry j (row ! j)) [0..<length row]"

text \<open>
  The same entries gathered the way the \<open>td\<close> loop meets them, counting the columns
  from \<open>i\<close> on.
\<close>

fun entries_from :: "nat \<Rightarrow> cell list \<Rightarrow> entry list" where
  "entries_from i [] = []"
| "entries_from i (c # cs) =
     (case cell_entry i c of
        None \<Rightarrow> entries_from (i + 1) cs
      | Some e \<Rightarrow> e # entries_from (i + 1) cs)"

text \<open>Storing the entries of a row under its label.\<close>

definition put_row ::
  "string \<times> cell list \<Rightarrow> (string \<times> entry list) list \<Rightarrow> (string \<times> entry list) list" where
  "put_row = (\<lambda>(label, row). js_set label (row_entries row))"

text \<open>
  Depths as the specification words them: ranks from 1 on, without gaps.
\<close>

definition no_gaps :: "entry list \<Rightarrow> bool" where
  "no_gaps es = (map depth es = [1 ..< length es + 1])"


section \<open>Example inputs\<close>

text \<open>A point-guard row whose second slot is empty.\<close>

definition gap_page :: page where
  "gap_page =
     [\<lparr>thead_rows = [[''PG'', ''Starter'', ''2nd'', ''3rd'']],
       tbody_rows =
         [[\<lparr>cell_text = ''Dyson Daniels'',
            links = [\<lparr>link_text = ''Dyson Daniels'',
                      href = Some ''https://www.espn.com/nba/player/_/id/4869342/dyson-daniels''\<rparr>]\<rparr>,
           \<lparr>cell_text = ''-'', links = []\<rparr>,
           \<lparr>cell_text = ''Trae Young O'',
            links = [\<lparr>link_text = ''Trae Young'',
                      href = Some ''https://www.espn.com/nba/player/_/id/4277905/trae-young''\<rparr>]\<rparr>]]\<rparr>]"

definition gap_entries :: "entry list" where
  "gap_entries =
     [\<lparr>depth = 1, name = ''Dyson Daniels'', espnId = Some ''4869342'', injuryStatus = None\<rparr>,
      \<lparr>depth = 3, name = ''Trae Young'', espnId = Some ''4277905'', injuryStatus = Some ''OUT''\<rparr>]"

definition gap_chart :: "string \<Rightarrow> depthChart" where
  "gap_chart stamp = \<lparr>team = ''ATL'', timestamp = stamp, positions = [(''PG'', gap_entries)]\<rparr>"

text \<open>A header with rank labels only.\<close>

definition ranks_page :: page where
  "ranks_page =
     [\<lparr>thead_rows = [[''Starter'', ''2nd'', ''3rd'']],
       tbody_rows =
         [[\<lparr>cell_text = ''Dyson Daniels'',
            links = [\<lparr>link_text = ''Dyson Daniels'',
                      href = Some ''https://www.espn.com/nba/player/_/id/4869342/dyson-daniels''\<rparr>]\<rparr>]]\<rparr>]"

text \<open>
  Two labels with white space around them and three body rows: the third row has no
  label, and the second row has an empty first slot.
\<close>

definition two_row_page :: page where
  "two_row_page =
     [\<lparr>thead_rows = [[CHR 0x0A # ''  PG '', ''Starter'', CHR 0x09 # ''SG'', ''2nd'', ''   '']],
       tbody_rows =
         [[\<lparr>cell_text = ''Dyson Daniels'',
            links = [\<lparr>link_text = ''Dyson Daniels'',
                      href = Some ''https://www.espn.com/nba/player/_/id/4869342/dyson-daniels''\<rparr>]\<rparr>],
          [\<lparr>cell_text = ''-'', links = []\<rparr>,
           \<lparr>cell_text = ''Nickeil Alexander-Walker'',
            links = [\<lparr>link_text = ''Nickeil Alexander-Walker'',
                      href = Some ''https://www.espn.com/nba/player/_/id/4278039/nickeil-alexander-walker''\<rparr>]\<rparr>],
          [\<lparr>cell_text = ''Keaton Wallace'',
            links = [\<lparr>link_text = ''Keaton Wallace'',
                      href = Some ''https://www.espn.com/nba/player/_/id/4279118/keaton-wallace''\<rparr>]\<rparr>]]\<rparr>]"

text \<open>What the parser stores for that page.\<close>

definition two_row_stored :: "(string \<times> entry list) list" where
  "two_row_stored =
     [(''PG'', [\<lparr>depth = 1, name = ''Dyson Daniels'', espnId = Some ''4869342'',
                 injuryStatus = None\<rparr>]),
      (''SG'', [\<lparr>depth = 2, name = ''Nickeil Alexander-Walker'', espnId = Some ''4278039'',
                 injuryStatus = None\<rparr>])]"

text \<open>The chart of the project's README.\<close>

definition atl_chart :: depthChart where
  "atl_chart =
     \<lparr>team = ''ATL'', timestamp = ''2024-12-30T06:00:00.000Z'',
      positions =
        [(''PG'',
          [\<lparr>depth = 1, name = ''Dyson Daniels'', espnId = Some ''4869342'', injuryStatus = None\<rparr>,
           \<lparr>depth = 2, name = ''Keaton Wallace'', espnId = Some ''4279118'', injuryStatus = None\<rparr>,
           \<lparr>depth = 5, name = ''Trae Young'', espnId = Some ''4277905'',
            injuryStatus = Some ''OUT''\<rparr>]),
         (''SG'',
          [\<lparr>depth = 1, name = ''Nickeil Alexander-Walker'', espnId = Some ''4278039'',
            injuryStatus = None\<rparr>])]\<rparr>"

text \<open>A cache that holds the README chart for Atlanta, stored at \<open>1735538400000\<close>.\<close>

definition atl_record :: cacheRecord where
  "atl_record = \<lparr>data = atl_chart, cachedAt = 1735538400000\<rparr>"

definition atl_state :: state where
  "atl_state = \<lparr>depthChartCache = [''atl'' \<mapsto> atl_record], requests = [depth_url ''atl'']\<rparr>"

text \<open>
  Worlds: one millisecond before and one after the end of the six hours, both answering
  with the page above; and, after the six hours, a network that rejects the request and a
  page without a table.
\<close>

definition early_world :: world where
  "early_world = \<lparr>httpGet = (\<lambda>url. Inr gap_page), isoNow = ''2024-12-30T11:59:59.999Z'',
                   nowCheck = 1735559999999, nowStore = 1735560000400\<rparr>"

definition late_world :: world where
  "late_world = \<lparr>httpGet = (\<lambda>url. Inr gap_page), isoNow = ''2024-12-30T12:00:00.300Z'',
                  nowCheck = 1735560000001, nowStore = 1735560000400\<rparr>"

definition offline_world :: world where
  "offline_world = \<lparr>httpGet = (\<lambda>url. Inl (Error ''Network Error'')),
                     isoNow = ''2024-12-30T12:00:00.300Z'',
                     nowCheck = 1735560000001, nowStore = 1735560000400\<rparr>"

definition tableless_world :: world where
  "tableless_world = \<lparr>httpGet = (\<lambda>url. Inr []), isoNow = ''2024-12-30T12:00:00.300Z'',
                       nowCheck = 1735560000001, nowStore = 1735560000400\<rparr>"


section \<open>Auxiliary facts\<close>


lemma starts_with_iff: "starts_with s t \<longleftrightarrow> (\<exists>post. s = t @ post)"
  by (induction s t rule: starts_with.induct) auto

lemma includes_str_iff: "includes_str s t \<longleftrightarrow> (\<exists>pre post. s = pre @ t @ post)"
proof (induction s)
  case Nil
  then show ?case by simp
next
  case (Cons c cs)
  show ?case
  proof
    assume "includes_str (c # cs) t"
    then consider "starts_with (c # cs) t" | "includes_str cs t" by auto
    then show "\<exists>pre post. c # cs = pre @ t @ post"
    proof cases
      case 1
      then obtain post where "c # cs = t @ post" by (auto simp: starts_with_iff)
      then have "c # cs = [] @ t @ post" by simp
      then show ?thesis by blast
    next
      case 2
      then obtain pre post where "cs = pre @ t @ post" using Cons.IH by auto
      then have "c # cs = (c # pre) @ t @ post" by simp
      then show ?thesis by blast
    qed
  next
    assume "\<exists>pre post. c # cs = pre @ t @ post"
    then obtain pre post where e: "c # cs = pre @ t @ post" by auto
    show "includes_str (c # cs) t"
    proof (cases pre)
      case Nil
      then have "starts_with (c # cs) t" using e by (auto simp: starts_with_iff)
      then show ?thesis by simp
    next
      case (Cons a pre')
      then have "cs = pre' @ t @ post" using e by simp
      then have "includes_str cs t" using Cons.IH by blast
      then show ?thesis by simp
    qed
  qed
qed

lemma includes_str_empty: "includes_str s []"
  by (cases s) auto

lemma findIndex_None_iff: "findIndex P xs = None \<longleftrightarrow> (\<forall>x \<in> set xs. \<not> P x)"
  by (induction xs) auto

lemma findIndex_Some:
  "findIndex P xs = Some i \<Longrightarrow> i < length xs \<and> P (xs ! i) \<and> (\<forall>j < i. \<not> P (xs ! j))"
proof (induction xs arbitrary: i)
  case Nil
  then show ?case by simp
next
  case (Cons x xs)
  show ?case
  proof (cases "P x")
    case True
    then show ?thesis using Cons.prems by simp
  next
    case False
    then obtain k where k: "findIndex P xs = Some k" "i = Suc k" using Cons.prems by auto
    then have ih: "k < length xs \<and> P (xs ! k) \<and> (\<forall>j < k. \<not> P (xs ! j))" using Cons.IH by blast
    show ?thesis using False k(2) ih by (auto simp: less_Suc_eq_0_disj)
  qed
qed

lemma findIndex_find:
  "map_option (\<lambda>i. xs ! i) (findIndex P xs) = List.find P xs"
  by (induction xs) (auto simp: option.map_comp comp_def)

lemma find_append: "List.find P (xs @ ys) = (case List.find P xs of Some x \<Rightarrow> Some x | None \<Rightarrow> List.find P ys)"
  by (induction xs) auto

lemma find_map_Pair: "List.find (\<lambda>(pos, p). P p) (map (Pair k) xs) = map_option (Pair k) (List.find P xs)"
  by (induction xs) auto

lemma backup_loop_find:
  "map_option (\<lambda>r. (position r, injuredPlayer r)) (backup_loop ps q)
     = List.find (\<lambda>(pos, p). name_matches q p) (flat_entries ps)"
proof (induction ps q rule: backup_loop.induct)
  case (1 q)
  then show ?case by (simp add: flat_entries_def)
next
  case (2 pos players rest q)
  have fl: "flat_entries ((pos, players) # rest) = map (Pair pos) players @ flat_entries rest"
    by (simp add: flat_entries_def)
  show ?case
  proof (cases "findIndex (name_matches q) players")
    case None
    then have "List.find (name_matches q) players = None"
      using findIndex_find[of players "name_matches q"] by simp
    then show ?thesis using None 2 by (simp add: fl find_append find_map_Pair)
  next
    case (Some i)
    then have "List.find (name_matches q) players = Some (players ! i)"
      using findIndex_find[of players "name_matches q"] by simp
    then show ?thesis using Some by (simp add: fl find_append find_map_Pair)
  qed
qed


lemma backup_loop_Some:
  "backup_loop ps q = Some r \<Longrightarrow>
   \<exists>players i. (position r, players) \<in> set ps \<and> findIndex (name_matches q) players = Some i
      \<and> r = \<lparr>position = position r, injuredPlayer = players ! i,
               primaryBackup = js_index players (i + 1),
               allBackups = slice players (i + 1) (i + 4)\<rparr>"
proof (induction ps q rule: backup_loop.induct)
  case (1 q)
  then show ?case by simp
next
  case (2 pos players rest q)
  show ?case
  proof (cases "findIndex (name_matches q) players")
    case None
    then have "backup_loop rest q = Some r" using 2 by simp
    then show ?thesis using 2 None by (fastforce)
  next
    case (Some i)
    then have "r = \<lparr>position = pos, injuredPlayer = players ! i,
               primaryBackup = js_index players (i + 1),
               allBackups = slice players (i + 1) (i + 4)\<rparr>" using 2(2) by simp
    then show ?thesis using Some by (intro exI[of _ players] exI[of _ i]) auto
  qed
qed

lemma slice_nth:
  "slice xs (i + 1) (i + 4) = map (\<lambda>j. xs ! j) [i + 1 ..< min (i + 4) (length xs)]"
  by (auto simp: slice_def list_eq_iff_nth_eq)

lemma findIndex_true: "findIndex (\<lambda>x. True) xs = (if xs = [] then None else Some 0)"
  by (cases xs) auto

lemma name_matches_empty: "name_matches [] = (\<lambda>p. True)"
  by (auto simp: name_matches_def toLowerCase_def includes_str_empty)

lemma backup_loop_empty:
  "backup_loop ps [] =
     (case List.find (\<lambda>(pos, players). players \<noteq> []) ps of
        None \<Rightarrow> None
      | Some (pos, players) \<Rightarrow>
          Some \<lparr>position = pos, injuredPlayer = players ! 0,
                primaryBackup = js_index players 1, allBackups = slice players 1 4\<rparr>)"
  by (induction ps) (auto simp: name_matches_empty findIndex_true)




lemma each_th_filter: "each_th ths acc = acc @ filter is_label (map trim ths)"
  by (induction ths arbitrary: acc) (auto simp: is_label_def rank_tokens_def Let_def)

lemma map_of_replace_value:
  "map_of (replace_value k v obj) k' = (if k' = k \<and> map_of obj k \<noteq> None then Some v else map_of obj k')"
  by (induction obj) auto

lemma replace_value_twice:
  "replace_value k v (replace_value k u obj) = replace_value k v obj"
  by (induction obj) auto

lemma replace_value_append_new:
  "map_of obj k = None \<Longrightarrow> replace_value k v (obj @ [(k, u)]) = obj @ [(k, v)]"
  by (induction obj) (auto split: if_splits)

lemma replace_value_insert_index:
  "map_of obj k = None \<Longrightarrow> replace_value k v (insert_index n k u obj) = insert_index n k v obj"
  by (induction obj) (auto split: if_splits)

lemma map_of_insert_index:
  "map_of obj k = None \<Longrightarrow> map_of (insert_index n k v obj) k' = (if k' = k then Some v else map_of obj k')"
  by (induction obj) (auto split: if_splits)

lemma map_of_js_set:
  "map_of (js_set k v obj) k' = (if k' = k \<and> k \<noteq> ''__proto__'' then Some v else map_of obj k')"
  by (auto simp: js_set_def map_of_replace_value map_of_insert_index map_add_def split: option.splits)

lemma js_push_js_set:
  assumes "k \<noteq> ''__proto__''"
  shows "js_push k e (js_set k es obj) = js_set k (es @ [e]) obj"
proof (cases "map_of obj k")
  case None
  then show ?thesis using assms
    by (simp add: js_push_def map_of_js_set) (simp add: js_set_def replace_value_append_new replace_value_insert_index)
next
  case (Some old)
  then show ?thesis using assms
    by (simp add: js_push_def map_of_js_set) (simp add: js_set_def replace_value_twice)
qed

lemma js_push_proto:
  "map_of obj ''__proto__'' = None \<Longrightarrow> js_push ''__proto__'' e obj = obj"
  by (simp add: js_push_def)

lemma each_cell_js_set:
  assumes "map_of obj ''__proto__'' = None"
  shows "each_cell pos i cs (js_set pos es obj) = js_set pos (es @ entries_from i cs) obj"
proof (induction cs arbitrary: i es)
  case Nil
  then show ?case by simp
next
  case (Cons c cs)
  show ?case
  proof (cases "cell_entry i c")
    case None
    then show ?thesis using Cons.IH by simp
  next
    case (Some e)
    show ?thesis
    proof (cases "pos = ''__proto__''")
      case True
      have "js_set pos es obj = obj" for es :: "entry list" using True by (simp add: js_set_def)
      moreover have "js_push pos e obj = obj" using True assms by (simp add: js_push_proto)
      ultimately show ?thesis using Cons.IH[of "i + 1" es] Some by simp
    next
      case False
      then show ?thesis using Cons.IH[of "i + 1" "es @ [e]"] Some by (simp add: js_push_js_set)
    qed
  qed
qed

lemma map_filter_upt_shift:
  "List.map_filter (\<lambda>j. f (Suc j)) [a..<b] = List.map_filter f [Suc a..<Suc b]"
proof -
  have "[Suc a..<Suc b] = map Suc [a..<b]" by (simp add: map_Suc_upt)
  then show ?thesis by (simp add: List.map_filter_def filter_map comp_def)
qed

lemma entries_from_map_filter:
  "entries_from i cs = List.map_filter (\<lambda>j. cell_entry (i + j) (cs ! j)) [0..<length cs]"
proof (induction cs arbitrary: i)
  case Nil
  then show ?case by (simp add: List.map_filter_def)
next
  case (Cons c cs)
  have u: "[0..<length (c # cs)] = 0 # [Suc 0..<Suc (length cs)]" by (simp add: upt_rec)
  have "List.map_filter (\<lambda>j. cell_entry (i + j) ((c # cs) ! j)) [Suc 0..<Suc (length cs)]
        = List.map_filter (\<lambda>j. cell_entry (i + Suc j) ((c # cs) ! Suc j)) [0..<length cs]"
    by (rule map_filter_upt_shift[symmetric])
  also have "\<dots> = entries_from (i + 1) cs" using Cons.IH[of "i + 1"] by simp
  finally have r: "List.map_filter (\<lambda>j. cell_entry (i + j) ((c # cs) ! j)) [Suc 0..<Suc (length cs)]
        = entries_from (i + 1) cs" .
  show ?case unfolding u
    by (cases "cell_entry i c") (simp_all add: List.map_filter_simps r del: upt_Suc)
qed

lemma entries_from_0: "entries_from 0 row = row_entries row"
  by (simp add: entries_from_map_filter row_entries_def)


lemma each_row_fold:
  assumes "map_of obj ''__proto__'' = None" and "[] \<notin> set labels"
  shows "each_row labels i rows obj = fold put_row (zip (drop i labels) rows) obj"
  using assms(1)
proof (induction rows arbitrary: i obj)
  case Nil
  then show ?case by simp
next
  case (Cons row rows)
  show ?case
  proof (cases "i < length labels")
    case False
    then have d: "drop i labels = []" "drop (i + 1) labels = []" by simp_all
    have "js_index labels i = None" using False by (simp add: js_index_def)
    then show ?thesis using Cons.IH[of obj "i + 1"] Cons.prems d by simp
  next
    case True
    then have d: "drop i labels = labels ! i # drop (i + 1) labels"
      by (simp add: Cons_nth_drop_Suc)
    have ne: "labels ! i \<noteq> []" using True assms(2) by (metis nth_mem)
    have ji: "js_index labels i = Some (labels ! i)" using True by (simp add: js_index_def)
    have c: "each_cell (labels ! i) 0 row (js_set (labels ! i) [] obj)
               = js_set (labels ! i) (row_entries row) obj"
      using each_cell_js_set[OF Cons.prems, of "labels ! i" 0 row "[]"] by (simp add: entries_from_0)
    have p: "map_of (js_set (labels ! i) (row_entries row) obj) ''__proto__'' = None"
      using Cons.prems by (simp add: map_of_js_set)
    show ?thesis using Cons.IH[OF p, of "i + 1"] ji ne c d by (simp add: put_row_def)
  qed
qed

lemma each_th_nonempty: "[] \<notin> set (each_th ths [])"
  by (simp add: each_th_filter is_label_def)

lemma set_replace_value: "set (replace_value k v obj) \<subseteq> insert (k, v) (set obj)"
  by (induction obj) (auto split: if_splits)

lemma set_insert_index: "set (insert_index n k v obj) = insert (k, v) (set obj)"
  by (induction obj) (auto split: if_splits)

lemma set_js_set: "set (js_set k v obj) \<subseteq> insert (k, v) (set obj)"
  using set_replace_value[of k v obj]
  by (auto simp: js_set_def set_insert_index split: option.splits)

lemma set_fold_put_row:
  "(k, es) \<in> set (fold put_row zs obj) \<Longrightarrow>
   (k, es) \<in> set obj \<or> (\<exists>row. (k, row) \<in> set zs \<and> es = row_entries row)"
proof (induction zs arbitrary: obj)
  case Nil
  then show ?case by simp
next
  case (Cons z zs)
  obtain label row where z: "z = (label, row)" by (cases z)
  from Cons.prems have "(k, es) \<in> set (fold put_row zs (js_set label (row_entries row) obj))"
    by (simp add: z put_row_def)
  then consider "(k, es) \<in> set (js_set label (row_entries row) obj)"
    | "\<exists>row. (k, row) \<in> set zs \<and> es = row_entries row"
    using Cons.IH by blast
  then show ?case
  proof cases
    case 1
    then show ?thesis using set_js_set[of label "row_entries row" obj] z by auto
  next
    case 2
    then show ?thesis by auto
  qed
qed

lemma depth_cell_entry: "cell_entry j c = Some e \<Longrightarrow> depth e = j + 1 \<and> links c \<noteq> []"
  by (auto simp: cell_entry_def split: list.splits)

lemma cell_entry_None_iff: "cell_entry j c = None \<longleftrightarrow> links c = []"
  by (auto simp: cell_entry_def split: list.splits)

lemma depth_map_filter:
  "map depth (List.map_filter (\<lambda>j. cell_entry j (row ! j)) js)
     = map Suc (filter (\<lambda>j. links (row ! j) \<noteq> []) js)"
proof (induction js)
  case Nil
  then show ?case by (simp add: List.map_filter_simps)
next
  case (Cons j js)
  show ?case
  proof (cases "cell_entry j (row ! j)")
    case None
    moreover have "links (row ! j) = []" using None by (simp add: cell_entry_None_iff)
    ultimately show ?thesis using Cons by (simp add: List.map_filter_simps)
  next
    case (Some e)
    then show ?thesis using Cons depth_cell_entry[OF Some] by (simp add: List.map_filter_simps)
  qed
qed

lemma depth_row_entries:
  "map depth (row_entries row) = map Suc (filter (\<lambda>j. links (row ! j) \<noteq> []) [0..<length row])"
  by (simp add: row_entries_def depth_map_filter)

lemma sorted_depth_row_entries: "sorted_wrt (<) (map depth (row_entries row))"
proof -
  have "sorted_wrt (<) (filter (\<lambda>j. links (row ! j) \<noteq> []) [0..<length row])"
    by (rule sorted_wrt_filter) (simp add: sorted_wrt_upt)
  then show ?thesis by (simp add: depth_row_entries sorted_wrt_map)
qed

lemma parse_tables_fold:
  "parse_tables teamAbbr tables stamp =
     (if tables = [] then Inl (Error ''Could not find depth chart table'')
      else Inr \<lparr>team = toUpperCase teamAbbr, timestamp = stamp,
                positions = fold put_row
                   (zip (filter is_label (map trim (first_header tables)))
                        (concat (map tbody_rows tables))) []\<rparr>)"
proof -
  have "each_row (each_th (first_header tables) []) 0 rows [] =
        fold put_row (zip (filter is_label (map trim (first_header tables))) rows) []" for rows
    using each_row_fold[of "[]" "each_th (first_header tables) []" 0 rows] each_th_nonempty
    by (simp add: each_th_filter)
  then show ?thesis by (simp add: parse_tables_def)
qed

lemma parse_tables_entries:
  assumes "parse_tables teamAbbr tables stamp = Inr chart" and "(pos, es) \<in> set (positions chart)"
  shows "\<exists>row \<in> set (concat (map tbody_rows tables)). es = row_entries row"
proof -
  have "tables \<noteq> []" using assms(1) by (auto simp: parse_tables_def split: if_splits)
  then have "positions chart = fold put_row
                   (zip (filter is_label (map trim (first_header tables)))
                        (concat (map tbody_rows tables))) []"
    using assms(1) by (auto simp: parse_tables_fold)
  then obtain row where z: "(pos, row) \<in> set (zip (filter is_label (map trim (first_header tables)))
                        (concat (map tbody_rows tables)))" and e: "es = row_entries row"
    using assms(2) set_fold_put_row[of pos es _ "[]"] by auto
  from z have "row \<in> set (concat (map tbody_rows tables))" by (rule set_zip_rightD)
  then show ?thesis using e by blast
qed


lemma set_flat_entries:
  "(pos, p) \<in> set (flat_entries ps) \<longleftrightarrow> (\<exists>players. (pos, players) \<in> set ps \<and> p \<in> set players)"
  by (induction ps) (auto simp: flat_entries_def)

lemma find_flat_None:
  "List.find (\<lambda>(pos, p). P p) (flat_entries ps) = None
     \<longleftrightarrow> (\<forall>(pos, players) \<in> set ps. \<forall>p \<in> set players. \<not> P p)"
proof -
  have "List.find (\<lambda>(pos, p). P p) (flat_entries ps) = None
          \<longleftrightarrow> (\<forall>pos p. (pos, p) \<in> set (flat_entries ps) \<longrightarrow> \<not> P p)"
    by (auto simp: find_None_iff)
  also have "\<dots> \<longleftrightarrow> (\<forall>(pos, players) \<in> set ps. \<forall>p \<in> set players. \<not> P p)"
    unfolding set_flat_entries by blast
  finally show ?thesis .
qed

section \<open>Evaluated examples\<close>

lemma gap_parse: "parse_tables ''atl'' gap_page stamp = Inr (gap_chart stamp)"
  by code_simp

lemma ranks_parse:
  "parse_tables ''atl'' ranks_page stamp = Inr \<lparr>team = ''ATL'', timestamp = stamp, positions = []\<rparr>"
  by code_simp

lemma atl_resolve_trae:
  "getBackupForPlayer atl_chart ''trae'' =
     Some \<lparr>position = ''PG'',
           injuredPlayer = \<lparr>depth = 5, name = ''Trae Young'', espnId = Some ''4277905'',
                            injuryStatus = Some ''OUT''\<rparr>,
           primaryBackup = None, allBackups = []\<rparr>"
  by code_simp

lemma atl_resolve_dyson:
  "getBackupForPlayer atl_chart ''DYSON'' =
     Some \<lparr>position = ''PG'',
           injuredPlayer = \<lparr>depth = 1, name = ''Dyson Daniels'', espnId = Some ''4869342'',
                            injuryStatus = None\<rparr>,
           primaryBackup = Some \<lparr>depth = 2, name = ''Keaton Wallace'', espnId = Some ''4279118'',
                                  injuryStatus = None\<rparr>,
           allBackups = [\<lparr>depth = 2, name = ''Keaton Wallace'', espnId = Some ''4279118'',
                          injuryStatus = None\<rparr>,
                         \<lparr>depth = 5, name = ''Trae Young'', espnId = Some ''4277905'',
                          injuryStatus = Some ''OUT''\<rparr>]\<rparr>"
  by code_simp

lemma js_set_order:
  "js_set ''10'' [1::nat] (js_set ''PG'' [2] (js_set ''2'' [3] (js_set ''__proto__'' [9] (js_set ''07'' [] []))))
     = [(''2'', [3]), (''10'', [1]), (''07'', []), (''PG'', [2])]"
  by code_simp

lemma match_id_examples:
  "map match_id [''/nba/player/_/id/42/x'', ''/id//id/7/'', ''/id/12'', ''x/id/12a/id/3/'', '''']
     = [Some ''42'', Some ''7'', None, Some ''3'', None]"
  by code_simp


section \<open>The backup resolver\<close>

text \<open>
  Claim C2. \<open>getBackupForPlayer\<close> goes through the positions in the order of the chart
  and through the players of a position in their order, and answers with the first
  player whose lower-cased name contains the lower-cased query as a substring; it
  answers \<open>null\<close> exactly when no player of any position does.
\<close>

theorem resolve_first_match:
  "map_option (\<lambda>r. (position r, injuredPlayer r)) (getBackupForPlayer chart q)
     = List.find (\<lambda>(pos, p). name_matches q p) (flat_entries (positions chart))
   \<and> (getBackupForPlayer chart q = None
        \<longleftrightarrow> (\<forall>(pos, players) \<in> set (positions chart). \<forall>p \<in> set players. \<not> name_matches q p))
   \<and> (name_matches q p \<longleftrightarrow> (\<exists>pre post. toLowerCase (name p) = pre @ toLowerCase q @ post))"
proof -
  have a: "map_option (\<lambda>r. (position r, injuredPlayer r)) (getBackupForPlayer chart q)
     = List.find (\<lambda>(pos, p). name_matches q p) (flat_entries (positions chart))"
    unfolding getBackupForPlayer_def by (rule backup_loop_find)
  have "getBackupForPlayer chart q = None
        \<longleftrightarrow> map_option (\<lambda>r. (position r, injuredPlayer r)) (getBackupForPlayer chart q) = None"
    by simp
  also have "\<dots> \<longleftrightarrow> List.find (\<lambda>(pos, p). name_matches q p) (flat_entries (positions chart)) = None"
    by (simp only: a)
  also have "\<dots> \<longleftrightarrow> (\<forall>(pos, players) \<in> set (positions chart). \<forall>p \<in> set players. \<not> name_matches q p)"
    by (rule find_flat_None)
  finally have b: "getBackupForPlayer chart q = None
        \<longleftrightarrow> (\<forall>(pos, players) \<in> set (positions chart). \<forall>p \<in> set players. \<not> name_matches q p)" .
  have c: "name_matches q p \<longleftrightarrow> (\<exists>pre post. toLowerCase (name p) = pre @ toLowerCase q @ post)"
    by (simp add: name_matches_def includes_str_iff)
  show ?thesis
    by (intro conjI) (rule a, rule b, rule c)
qed

theorem resolve_first_match_witness:
  "map_option (\<lambda>r. (position r, injuredPlayer r)) (getBackupForPlayer atl_chart ''trae'')
     = Some (''PG'', \<lparr>depth = 5, name = ''Trae Young'', espnId = Some ''4277905'',
                      injuryStatus = Some ''OUT''\<rparr>)
   \<and> List.find (\<lambda>(pos, p). name_matches ''trae'' p) (flat_entries (positions atl_chart))
     = Some (''PG'', \<lparr>depth = 5, name = ''Trae Young'', espnId = Some ''4277905'',
                      injuryStatus = Some ''OUT''\<rparr>)
   \<and> (\<exists>pos players. (pos, players) \<in> set (positions atl_chart)
        \<and> (\<exists>p \<in> set players. name_matches ''trae'' p))"
proof -
  note t = resolve_first_match[of atl_chart "''trae''"]
  have r: "map_option (\<lambda>r. (position r, injuredPlayer r)) (getBackupForPlayer atl_chart ''trae'')
     = Some (''PG'', \<lparr>depth = 5, name = ''Trae Young'', espnId = Some ''4277905'',
                      injuryStatus = Some ''OUT''\<rparr>)"
    by (simp add: atl_resolve_trae)
  have n: "getBackupForPlayer atl_chart ''trae'' \<noteq> None" by (simp add: atl_resolve_trae)
  from t r n show ?thesis by fastforce
qed

text \<open>
  Claim C3. When the match is the player at index \<open>i\<close> of its position, the primary
  backup is the player at index \<open>i + 1\<close>, or absent when the match is the last one; the
  backups are the players at the indices \<open>i + 1\<close> to \<open>i + 3\<close> that exist, in their order.
  So the primary backup is absent exactly when there is no backup and is the first backup
  otherwise, and there are at most three backups and at most as many as players after
  the match.
\<close>

theorem backups_after_match:
  assumes "getBackupForPlayer chart q = Some r"
  shows "\<exists>players i.
           (position r, players) \<in> set (positions chart)
         \<and> findIndex (name_matches q) players = Some i
         \<and> i < length players
         \<and> injuredPlayer r = players ! i
         \<and> primaryBackup r = (if i + 1 < length players then Some (players ! (i + 1)) else None)
         \<and> allBackups r = map (\<lambda>j. players ! j) [i + 1 ..< min (i + 4) (length players)]
         \<and> (case primaryBackup r of
               None \<Rightarrow> allBackups r = []
             | Some b \<Rightarrow> allBackups r \<noteq> [] \<and> allBackups r ! 0 = b)
         \<and> length (allBackups r) \<le> 3
         \<and> length (allBackups r) \<le> length players - (i + 1)"
proof -
  from assms obtain players i where
    m: "(position r, players) \<in> set (positions chart)"
    and f: "findIndex (name_matches q) players = Some i"
    and r: "r = \<lparr>position = position r, injuredPlayer = players ! i,
               primaryBackup = js_index players (i + 1),
               allBackups = slice players (i + 1) (i + 4)\<rparr>"
    unfolding getBackupForPlayer_def using backup_loop_Some by blast
  have i: "i < length players" using findIndex_Some[OF f] by simp
  have ip: "injuredPlayer r = players ! i" by (subst r) simp
  have pb: "primaryBackup r = js_index players (i + 1)" by (subst r) simp
  have ab: "allBackups r = slice players (i + 1) (i + 4)" by (subst r) simp
  have ab2: "allBackups r = map (\<lambda>j. players ! j) [i + 1 ..< min (i + 4) (length players)]"
    using ab slice_nth by metis
  have c: "(case primaryBackup r of
               None \<Rightarrow> allBackups r = []
             | Some b \<Rightarrow> allBackups r \<noteq> [] \<and> allBackups r ! 0 = b)"
    unfolding pb ab by (auto simp: js_index_def slice_def)
  have l3: "length (allBackups r) \<le> 3" unfolding ab slice_def by simp
  have lr: "length (allBackups r) \<le> length players - (i + 1)" unfolding ab slice_def by simp
  have pb2: "primaryBackup r = (if i + 1 < length players then Some (players ! (i + 1)) else None)"
    unfolding pb js_index_def by simp
  from m f i ip pb2 ab2 c l3 lr show ?thesis by blast
qed

theorem backups_after_match_witness:
  "getBackupForPlayer atl_chart ''DYSON'' \<noteq> None
   \<and> (\<exists>players i.
         (''PG'', players) \<in> set (positions atl_chart)
       \<and> findIndex (name_matches ''DYSON'') players = Some i
       \<and> i < length players
       \<and> primaryBackup (the (getBackupForPlayer atl_chart ''DYSON''))
           = (if i + 1 < length players then Some (players ! (i + 1)) else None)
       \<and> allBackups (the (getBackupForPlayer atl_chart ''DYSON''))
           = map (\<lambda>j. players ! j) [i + 1 ..< min (i + 4) (length players)])"
proof -
  obtain r where r: "getBackupForPlayer atl_chart ''DYSON'' = Some r" "position r = ''PG''"
    by (simp add: atl_resolve_dyson)
  from backups_after_match[OF r(1)] r show ?thesis by fastforce
qed

text \<open>
  Claim C9. With the empty string as the query every name matches: the answer is the
  first player of the first position, in the order of the chart, that has a player (with
  the backups that follow it), and \<open>null\<close> only when every position is empty.
\<close>

theorem resolve_empty_query:
  "getBackupForPlayer chart [] =
     (case List.find (\<lambda>(pos, players). players \<noteq> []) (positions chart) of
        None \<Rightarrow> None
      | Some (pos, players) \<Rightarrow>
          Some \<lparr>position = pos, injuredPlayer = players ! 0,
                primaryBackup = js_index players 1, allBackups = slice players 1 4\<rparr>)
   \<and> (getBackupForPlayer chart [] = None
        \<longleftrightarrow> (\<forall>(pos, players) \<in> set (positions chart). players = []))"
proof -
  have a: "getBackupForPlayer chart [] =
     (case List.find (\<lambda>(pos, players). players \<noteq> []) (positions chart) of
        None \<Rightarrow> None
      | Some (pos, players) \<Rightarrow>
          Some \<lparr>position = pos, injuredPlayer = players ! 0,
                primaryBackup = js_index players 1, allBackups = slice players 1 4\<rparr>)"
    unfolding getBackupForPlayer_def by (rule backup_loop_empty)
  have "getBackupForPlayer chart [] = None
        \<longleftrightarrow> List.find (\<lambda>(pos, players). players \<noteq> []) (positions chart) = None"
    unfolding a by (auto split: option.splits)
  also have "\<dots> \<longleftrightarrow> (\<forall>(pos, players) \<in> set (positions chart). players = [])"
    by (auto simp: find_None_iff)
  finally show ?thesis using a by blast
qed

theorem resolve_empty_query_witness:
  "getBackupForPlayer atl_chart [] =
     Some \<lparr>position = ''PG'',
           injuredPlayer = \<lparr>depth = 1, name = ''Dyson Daniels'', espnId = Some ''4869342'',
                            injuryStatus = None\<rparr>,
           primaryBackup = Some \<lparr>depth = 2, name = ''Keaton Wallace'', espnId = Some ''4279118'',
                                  injuryStatus = None\<rparr>,
           allBackups = [\<lparr>depth = 2, name = ''Keaton Wallace'', espnId = Some ''4279118'',
                          injuryStatus = None\<rparr>,
                         \<lparr>depth = 5, name = ''Trae Young'', espnId = Some ''4277905'',
                          injuryStatus = Some ''OUT''\<rparr>]\<rparr>
   \<and> \<not> (\<forall>(pos, players) \<in> set (positions atl_chart). players = [])
   \<and> getBackupForPlayer \<lparr>team = ''ATL'', timestamp = '''', positions = [(''PG'', []), (''SG'', [])]\<rparr> [] = None"
  using resolve_empty_query[of atl_chart]
    resolve_empty_query[of "\<lparr>team = ''ATL'', timestamp = '''', positions = [(''PG'', []), (''SG'', [])]\<rparr>"]
  by (simp add: atl_chart_def js_index_def slice_def)


section \<open>Facts about rows and cells\<close>

lemma in_row_entries:
  assumes "e \<in> set (row_entries row)"
  shows "\<exists>j < length row. cell_entry j (row ! j) = Some e"
proof -
  from assms obtain j where "j \<in> set [0..<length row]" and "cell_entry j (row ! j) = Some e"
    by (auto simp: row_entries_def List.map_filter_def)
  then show ?thesis by auto
qed

lemma includes_str_char: "includes_str s [c] \<longleftrightarrow> c \<in> set s"
proof -
  have "includes_str s [c] \<longleftrightarrow> (\<exists>pre post. s = pre @ c # post)"
    by (simp add: includes_str_iff)
  then show ?thesis by (simp add: in_set_conv_decomp)
qed

lemma status_cell_entry:
  assumes "cell_entry j c = Some e"
  shows "injuryStatus e =
           (if CHR ''O'' \<in> set (cell_text c) then Some ''OUT''
            else if (\<exists>pre post. cell_text c = pre @ ''DD'' @ post) then Some ''DAY-TO-DAY''
            else None)"
proof -
  have o: "includes_str (cell_text c) ''O'' \<longleftrightarrow> CHR ''O'' \<in> set (cell_text c)"
    by (rule includes_str_char)
  have d: "includes_str (cell_text c) ''DD'' \<longleftrightarrow> (\<exists>pre post. cell_text c = pre @ ''DD'' @ post)"
    by (rule includes_str_iff)
  have "injuryStatus e =
           (if includes_str (cell_text c) ''O'' then Some ''OUT''
            else if includes_str (cell_text c) ''DD'' then Some ''DAY-TO-DAY''
            else None)"
    using assms by (auto simp: cell_entry_def split: list.splits)
  then show ?thesis by (simp only: o d)
qed

lemma distinct_depth_row_entries: "distinct (map depth (row_entries row))"
  by (simp add: depth_row_entries distinct_map)

lemma positive_depth_row_entries: "e \<in> set (row_entries row) \<Longrightarrow> 1 \<le> depth e"
  using in_row_entries[of e row] depth_cell_entry by fastforce

lemma gap_scrape:
  "httpGet w url = Inr gap_page \<Longrightarrow> isoNow w = stamp \<Longrightarrow> url = depth_url ''atl'' \<Longrightarrow>
   scrapeESPNDepthChart ''atl'' w requested = (Inr (gap_chart stamp), requested @ [url])"
  by (simp add: scrapeESPNDepthChart_def gap_parse)


lemma upper_atl: "toUpperCase ''atl'' = ''ATL''"
  by code_simp

lemma two_row_labels: "each_th (first_header two_row_page) [] = [''PG'', ''SG'']"
  by code_simp

lemma map_fst_replace_value: "map fst (replace_value k v obj) = map fst obj"
  by (induction obj) auto

lemma distinct_insert_index:
  "k \<notin> fst ` set obj \<Longrightarrow> distinct (map fst obj) \<Longrightarrow> distinct (map fst (insert_index n k v obj))"
proof (induction obj)
  case Nil
  then show ?case by simp
next
  case (Cons a obj)
  obtain k' v' where a: "a = (k', v')" by (cases a)
  have s: "fst ` set (insert_index n k v obj) = insert k (fst ` set obj)"
    by (simp add: set_insert_index)
  show ?case using Cons s by (auto simp: a)
qed

lemma distinct_js_set:
  assumes "distinct (map fst obj)"
  shows "distinct (map fst (js_set k v obj))"
proof (cases "map_of obj k")
  case None
  then have "k \<notin> fst ` set obj" by (simp add: map_of_eq_None_iff)
  then show ?thesis using assms None
    by (auto simp: js_set_def distinct_insert_index)
next
  case (Some old)
  then show ?thesis using assms by (simp add: js_set_def map_fst_replace_value)
qed

lemma distinct_fold_put_row:
  "distinct (map fst obj) \<Longrightarrow> distinct (map fst (fold put_row zs obj))"
proof (induction zs arbitrary: obj)
  case Nil
  then show ?case by simp
next
  case (Cons z zs)
  obtain label row where z: "z = (label, row)" by (cases z)
  show ?case using Cons.IH[OF distinct_js_set[OF Cons.prems, of label "row_entries row"]]
    by (simp add: z put_row_def)
qed

lemma map_of_fold_put_row:
  "map_of (fold put_row zs obj) k =
     (if k = ''__proto__'' then map_of obj k
      else case map_of (rev zs) k of
             Some row \<Rightarrow> Some (row_entries row)
           | None \<Rightarrow> map_of obj k)"
proof (induction zs arbitrary: obj)
  case Nil
  then show ?case by simp
next
  case (Cons z zs)
  obtain label row where z: "z = (label, row)" by (cases z)
  have r: "map_of (rev (z # zs)) k =
             (case map_of (rev zs) k of Some x \<Rightarrow> Some x | None \<Rightarrow> if k = label then Some row else None)"
    by (simp add: z map_add_def split: option.splits)
  have "map_of (fold put_row (z # zs) obj) k
          = map_of (fold put_row zs (js_set label (row_entries row) obj)) k"
    by (simp add: z put_row_def)
  also have "\<dots> = (if k = ''__proto__'' then map_of (js_set label (row_entries row) obj) k
      else case map_of (rev zs) k of
             Some row \<Rightarrow> Some (row_entries row)
           | None \<Rightarrow> map_of (js_set label (row_entries row) obj) k)"
    by (rule Cons.IH)
  also have "\<dots> = (if k = ''__proto__'' then map_of obj k
      else case map_of (rev (z # zs)) k of
             Some row \<Rightarrow> Some (row_entries row)
           | None \<Rightarrow> map_of obj k)"
    unfolding r by (auto simp: map_of_js_set split: option.splits)
  finally show ?case .
qed

lemma rev_split: "xs = rev (dropWhile P (rev xs)) @ rev (takeWhile P (rev xs))"
proof -
  have "rev (takeWhile P (rev xs) @ dropWhile P (rev xs)) = rev (rev xs)"
    by (simp only: takeWhile_dropWhile_id)
  then have "rev (dropWhile P (rev xs)) @ rev (takeWhile P (rev xs)) = xs"
    by (simp only: rev_append rev_rev_ident)
  then show ?thesis by (rule sym)
qed

lemma trim_parts:
  "\<exists>pre post. s = pre @ trim s @ post \<and> (\<forall>c \<in> set (pre @ post). is_space c)"
proof -
  let ?d = "dropWhile is_space s"
  have 1: "s = takeWhile is_space s @ ?d" by simp
  have 2: "?d = trim s @ rev (takeWhile is_space (rev ?d))"
    unfolding trim_def by (rule rev_split)
  have 3: "s = takeWhile is_space s @ trim s @ rev (takeWhile is_space (rev ?d))"
    using 1 2 by metis
  have 4: "\<forall>c \<in> set (takeWhile is_space s @ rev (takeWhile is_space (rev ?d))). is_space c"
    by (auto dest: set_takeWhileD)
  from 3 4 show ?thesis by blast
qed

lemma trim_ends:
  assumes "trim s \<noteq> []"
  shows "\<not> is_space (hd (trim s)) \<and> \<not> is_space (last (trim s))"
proof -
  let ?d = "dropWhile is_space s"
  let ?e = "dropWhile is_space (rev ?d)"
  have t: "trim s = rev ?e" by (simp add: trim_def)
  have e: "?e \<noteq> []" using assms t by simp
  have l: "\<not> is_space (hd ?e)" using e by (rule hd_dropWhile)
  have "last (trim s) = hd ?e" using e by (simp add: t last_rev)
  then have a: "\<not> is_space (last (trim s))" using l by simp
  have "?e = []" if "?d = []" unfolding that by simp
  then have d: "?d \<noteq> []" using e by blast
  have "?d = trim s @ rev (takeWhile is_space (rev ?d))"
    unfolding trim_def by (rule rev_split)
  then have "hd ?d = hd (trim s)" using assms by (metis hd_append2)
  moreover have "\<not> is_space (hd ?d)" using d by (rule hd_dropWhile)
  ultimately show ?thesis using a by simp
qed

lemma two_row_zip:
  "map (\<lambda>(l, row). (l, row_entries row))
     (zip (each_th (first_header two_row_page) []) (concat (map tbody_rows two_row_page)))
   = two_row_stored"
  by code_simp


section \<open>The parser\<close>

text \<open>
  Claim C7. A page in which no table is found makes the parser (and so the scraper)
  fail with the error \<open>Could not find depth chart table\<close>; no chart is returned. The
  missing table is the only thing that makes the parser fail.
\<close>

theorem no_table_is_error:
  "parse_tables teamAbbr [] stamp = Inl (Error ''Could not find depth chart table'')
   \<and> ((\<exists>e. parse_tables teamAbbr tables stamp = Inl e) \<longleftrightarrow> tables = [])
   \<and> (httpGet w (depth_url teamAbbr) = Inr [] \<longrightarrow>
        scrapeESPNDepthChart teamAbbr w requested
          = (Inl (Error ''Could not find depth chart table''), requested @ [depth_url teamAbbr]))"
  by (simp add: parse_tables_def scrapeESPNDepthChart_def)

theorem no_table_is_error_witness:
  "httpGet tableless_world (depth_url ''atl'') = Inr []
   \<and> scrapeESPNDepthChart ''atl'' tableless_world []
       = (Inl (Error ''Could not find depth chart table''), [depth_url ''atl''])"
  using no_table_is_error[of "''atl''" "isoNow tableless_world" "[]" tableless_world "[]"]
  by (simp add: tableless_world_def)

text \<open>
  Claim C6. The position labels are the trimmed texts of the cells of the first header
  row that are neither empty nor one of \<open>Starter\<close>, \<open>2nd\<close>, \<open>3rd\<close>, \<open>4th\<close>, \<open>5th\<close>, in
  the order of the cells; trimming takes the white space (TAB, LF, VT, FF, CR, SP, NBSP)
  off both ends and nothing else. The body row at index \<open>r\<close> is stored under the label
  at index \<open>r\<close>: the value of a key of the chart is the list of the entries of the last
  body row whose label it is, the keys are the labels of the rows that have one, each
  once, and a row beyond the last label adds nothing and does not make the parse fail.
  (The label \<open>__proto__\<close> never becomes a key.) A header with rank labels only gives no
  label, and the chart has no position at all.
\<close>

theorem labels_and_rows:
  "(\<exists>pre post. s = pre @ trim s @ post
       \<and> (\<forall>c \<in> set (pre @ post). (of_char c :: nat) \<in> {9, 10, 11, 12, 13, 32, 160})
       \<and> (trim s \<noteq> [] \<longrightarrow>
            (of_char (hd (trim s)) :: nat) \<notin> {9, 10, 11, 12, 13, 32, 160}
          \<and> (of_char (last (trim s)) :: nat) \<notin> {9, 10, 11, 12, 13, 32, 160}))
   \<and> each_th ths [] =
       filter (\<lambda>t. t \<noteq> [] \<and> t \<notin> {''Starter'', ''2nd'', ''3rd'', ''4th'', ''5th''}) (map trim ths)
   \<and> (tables \<noteq> [] \<longrightarrow>
        (\<exists>chart. parse_tables teamAbbr tables stamp = Inr chart
           \<and> distinct (map fst (positions chart))
           \<and> set (map fst (positions chart))
               = set (take (length (concat (map tbody_rows tables)))
                        (each_th (first_header tables) [])) - {''__proto__''}
           \<and> (\<forall>k. map_of (positions chart) k =
                  (if k = ''__proto__'' then None
                   else map_option row_entries
                          (map_of (rev (zip (each_th (first_header tables) [])
                                            (concat (map tbody_rows tables)))) k)))
           \<and> (\<forall>pos es. (pos, es) \<in> set (positions chart) \<longrightarrow>
                  (\<exists>r. r < length (each_th (first_header tables) [])
                     \<and> r < length (concat (map tbody_rows tables))
                     \<and> each_th (first_header tables) [] ! r = pos
                     \<and> es = row_entries (concat (map tbody_rows tables) ! r)))
           \<and> (distinct (each_th (first_header tables) []) \<longrightarrow>
                  (\<forall>r. r < length (each_th (first_header tables) [])
                     \<and> r < length (concat (map tbody_rows tables))
                     \<and> each_th (first_header tables) [] ! r \<noteq> ''__proto__'' \<longrightarrow>
                       map_of (positions chart) (each_th (first_header tables) [] ! r)
                         = Some (row_entries (concat (map tbody_rows tables) ! r))))
           \<and> ((\<forall>t \<in> set (first_header tables).
                   trim t = [] \<or> trim t \<in> {''Starter'', ''2nd'', ''3rd'', ''4th'', ''5th''}) \<longrightarrow>
                positions chart = [])))"
proof -
  define L where "L = each_th (first_header tables) []"
  define R where "R = concat (map tbody_rows tables)"
  define ps where "ps = fold put_row (zip L R) []"
  have p1: "\<exists>pre post. s = pre @ trim s @ post
       \<and> (\<forall>c \<in> set (pre @ post). (of_char c :: nat) \<in> {9, 10, 11, 12, 13, 32, 160})
       \<and> (trim s \<noteq> [] \<longrightarrow>
            (of_char (hd (trim s)) :: nat) \<notin> {9, 10, 11, 12, 13, 32, 160}
          \<and> (of_char (last (trim s)) :: nat) \<notin> {9, 10, 11, 12, 13, 32, 160})"
    using trim_parts[of s] trim_ends[of s] unfolding is_space_def by blast
  have p2: "each_th ths [] =
       filter (\<lambda>t. t \<noteq> [] \<and> t \<notin> {''Starter'', ''2nd'', ''3rd'', ''4th'', ''5th''}) (map trim ths)"
    for ths
  proof -
    have "is_label = (\<lambda>t. t \<noteq> [] \<and> t \<notin> {''Starter'', ''2nd'', ''3rd'', ''4th'', ''5th''})"
      by (simp add: fun_eq_iff is_label_def rank_tokens_def)
    then show ?thesis using each_th_filter[of ths "[]"] by simp
  qed
  have Lf: "L = filter is_label (map trim (first_header tables))"
    unfolding L_def by (simp add: each_th_filter)
  have d: "distinct (map fst ps)"
    unfolding ps_def by (rule distinct_fold_put_row) simp
  have m: "map_of ps k =
             (if k = ''__proto__'' then None else map_option row_entries (map_of (rev (zip L R)) k))"
    for k
    unfolding ps_def map_of_fold_put_row by (cases "map_of (rev (zip L R)) k") simp_all
  have z: "fst ` set (zip L R) = set (take (length R) L)"
  proof -
    have "fst ` set (zip L R) = set (map fst (zip L R))" by simp
    also have "\<dots> = set (take (min (length L) (length R)) L)"
      by (simp only: map_fst_zip_take)
    also have "\<dots> = set (take (length R) L)" by (simp add: min_def)
    finally show ?thesis .
  qed
  have keys: "set (map fst ps) = set (take (length R) L) - {''__proto__''}"
  proof -
    have "k \<in> set (map fst ps) \<longleftrightarrow> k \<in> set (take (length R) L) - {''__proto__''}" for k
    proof -
      have "k \<in> set (map fst ps) \<longleftrightarrow> map_of ps k \<noteq> None"
        by (simp add: map_of_eq_None_iff)
      also have "\<dots> \<longleftrightarrow> k \<noteq> ''__proto__'' \<and> map_of (rev (zip L R)) k \<noteq> None"
        unfolding m by simp
      also have "\<dots> \<longleftrightarrow> k \<noteq> ''__proto__'' \<and> k \<in> fst ` set (zip L R)"
        by (simp add: map_of_eq_None_iff)
      also have "\<dots> \<longleftrightarrow> k \<in> set (take (length R) L) - {''__proto__''}"
        unfolding z by blast
      finally show ?thesis .
    qed
    then show ?thesis by blast
  qed
  have prov: "\<exists>r. r < length L \<and> r < length R \<and> L ! r = pos \<and> es = row_entries (R ! r)"
    if "(pos, es) \<in> set ps" for pos es
  proof -
    from that obtain row where "(pos, row) \<in> set (zip L R)" and e: "es = row_entries row"
      unfolding ps_def using set_fold_put_row[of pos es "zip L R" "[]"] by auto
    then obtain r where "r < length L" "r < length R" "L ! r = pos" "R ! r = row"
      by (auto simp: set_zip)
    then show ?thesis using e by blast
  qed
  have idx: "map_of ps (L ! r) = Some (row_entries (R ! r))"
    if dl: "distinct L" and r: "r < length L" "r < length R" and np: "L ! r \<noteq> ''__proto__''" for r
  proof -
    have "distinct (map fst (zip L R))"
      using dl by (simp only: map_fst_zip_take distinct_take)
    then have dz: "distinct (map fst (rev (zip L R)))"
      by (simp only: rev_map[symmetric] distinct_rev)
    have "(L ! r, R ! r) \<in> set (rev (zip L R))" using r by (auto simp: set_zip)
    then have "map_of (rev (zip L R)) (L ! r) = Some (R ! r)"
      using dz by (simp only: map_of_eq_Some_iff)
    then show ?thesis using np by (simp add: m)
  qed
  have empty: "ps = []"
    if "\<forall>t \<in> set (first_header tables).
           trim t = [] \<or> trim t \<in> {''Starter'', ''2nd'', ''3rd'', ''4th'', ''5th''}"
  proof -
    have "L = []" unfolding Lf using that by (auto simp: filter_empty_conv is_label_def rank_tokens_def)
    then show ?thesis by (simp add: ps_def)
  qed
  have p3: "\<exists>chart. parse_tables teamAbbr tables stamp = Inr chart
           \<and> distinct (map fst (positions chart))
           \<and> set (map fst (positions chart)) = set (take (length R) L) - {''__proto__''}
           \<and> (\<forall>k. map_of (positions chart) k =
                  (if k = ''__proto__'' then None
                   else map_option row_entries (map_of (rev (zip L R)) k)))
           \<and> (\<forall>pos es. (pos, es) \<in> set (positions chart) \<longrightarrow>
                  (\<exists>r. r < length L \<and> r < length R \<and> L ! r = pos \<and> es = row_entries (R ! r)))
           \<and> (distinct L \<longrightarrow>
                  (\<forall>r. r < length L \<and> r < length R \<and> L ! r \<noteq> ''__proto__'' \<longrightarrow>
                       map_of (positions chart) (L ! r) = Some (row_entries (R ! r))))
           \<and> ((\<forall>t \<in> set (first_header tables).
                   trim t = [] \<or> trim t \<in> {''Starter'', ''2nd'', ''3rd'', ''4th'', ''5th''}) \<longrightarrow>
                positions chart = [])"
    if t: "tables \<noteq> []"
  proof -
    have pt: "parse_tables teamAbbr tables stamp =
                Inr \<lparr>team = toUpperCase teamAbbr, timestamp = stamp, positions = ps\<rparr>"
      using t by (simp add: parse_tables_fold ps_def Lf R_def)
    have sel: "positions \<lparr>team = toUpperCase teamAbbr, timestamp = stamp, positions = ps\<rparr> = ps"
      by simp
    show ?thesis
      apply (rule exI[of _ "\<lparr>team = toUpperCase teamAbbr, timestamp = stamp, positions = ps\<rparr>"])
      apply (simp only: sel)
      apply (intro conjI allI impI)
            apply (rule pt)
           apply (rule d)
          apply (rule keys)
         apply (rule m)
        apply (erule prov)
       apply (elim conjE, erule (3) idx)
      apply (erule empty)
      done
  qed
  show ?thesis
    unfolding L_def[symmetric] R_def[symmetric]
    by (rule conjI[OF p1 conjI[OF p2 impI[OF p3]]])
qed

theorem labels_and_rows_witness:
  "two_row_page \<noteq> []
   \<and> each_th (first_header two_row_page) [] = [''PG'', ''SG'']
   \<and> length (concat (map tbody_rows two_row_page)) = 3
   \<and> (\<exists>chart. parse_tables ''atl'' two_row_page ''2024-12-30T12:00:00.300Z'' = Inr chart
         \<and> distinct (map fst (positions chart))
         \<and> set (map fst (positions chart)) = {''PG'', ''SG''}
         \<and> map_of (positions chart) ''PG''
             = Some [\<lparr>depth = 1, name = ''Dyson Daniels'', espnId = Some ''4869342'',
                      injuryStatus = None\<rparr>]
         \<and> map_of (positions chart) ''SG''
             = Some [\<lparr>depth = 2, name = ''Nickeil Alexander-Walker'', espnId = Some ''4278039'',
                      injuryStatus = None\<rparr>])
   \<and> ranks_page \<noteq> []
   \<and> map trim (first_header ranks_page) = [''Starter'', ''2nd'', ''3rd'']
   \<and> (\<exists>chart. parse_tables ''atl'' ranks_page ''2024-12-30T12:00:00.300Z'' = Inr chart
         \<and> positions chart = [])"
proof -
  have n2: "two_row_page \<noteq> []" by (simp add: two_row_page_def)
  have l3: "length (concat (map tbody_rows two_row_page)) = 3" by (simp add: two_row_page_def)
  have tk: "set (take (length (concat (map tbody_rows two_row_page)))
                   (each_th (first_header two_row_page) [])) - {''__proto__''} = {''PG'', ''SG''}"
    unfolding two_row_labels l3 by auto
  have mo: "map_option row_entries
              (map_of (rev (zip (each_th (first_header two_row_page) [])
                                (concat (map tbody_rows two_row_page)))) k)
            = map_of (rev two_row_stored) k" for k
  proof -
    have "map_option row_entries
              (map_of (rev (zip (each_th (first_header two_row_page) [])
                                (concat (map tbody_rows two_row_page)))) k)
          = map_of (map (\<lambda>(l, row). (l, row_entries row))
                      (rev (zip (each_th (first_header two_row_page) [])
                                (concat (map tbody_rows two_row_page))))) k"
      by (simp add: map_of_map)
    also have "\<dots> = map_of (rev two_row_stored) k"
      by (simp only: rev_map[symmetric] two_row_zip)
    finally show ?thesis .
  qed
  from labels_and_rows[of "[]" "[]" two_row_page "''atl''" "''2024-12-30T12:00:00.300Z''"] n2
  obtain chart where c: "parse_tables ''atl'' two_row_page ''2024-12-30T12:00:00.300Z'' = Inr chart"
    and cd: "distinct (map fst (positions chart))"
    and ck: "set (map fst (positions chart))
               = set (take (length (concat (map tbody_rows two_row_page)))
                        (each_th (first_header two_row_page) [])) - {''__proto__''}"
    and cm: "\<And>k. map_of (positions chart) k =
                  (if k = ''__proto__'' then None
                   else map_option row_entries
                          (map_of (rev (zip (each_th (first_header two_row_page) [])
                                            (concat (map tbody_rows two_row_page)))) k))"
    by blast
  have k2: "set (map fst (positions chart)) = {''PG'', ''SG''}" using ck tk by simp
  have pg: "map_of (positions chart) ''PG''
             = Some [\<lparr>depth = 1, name = ''Dyson Daniels'', espnId = Some ''4869342'',
                      injuryStatus = None\<rparr>]"
    unfolding cm mo by (simp add: two_row_stored_def)
  have sg: "map_of (positions chart) ''SG''
             = Some [\<lparr>depth = 2, name = ''Nickeil Alexander-Walker'', espnId = Some ''4278039'',
                      injuryStatus = None\<rparr>]"
    unfolding cm mo by (simp add: two_row_stored_def)
  have two: "\<exists>chart. parse_tables ''atl'' two_row_page ''2024-12-30T12:00:00.300Z'' = Inr chart
         \<and> distinct (map fst (positions chart))
         \<and> set (map fst (positions chart)) = {''PG'', ''SG''}
         \<and> map_of (positions chart) ''PG''
             = Some [\<lparr>depth = 1, name = ''Dyson Daniels'', espnId = Some ''4869342'',
                      injuryStatus = None\<rparr>]
         \<and> map_of (positions chart) ''SG''
             = Some [\<lparr>depth = 2, name = ''Nickeil Alexander-Walker'', espnId = Some ''4278039'',
                      injuryStatus = None\<rparr>]"
    by (rule exI[of _ chart]) (intro conjI, rule c, rule cd, rule k2, rule pg, rule sg)
  have nr: "ranks_page \<noteq> []" by (simp add: ranks_page_def)
  have h: "first_header ranks_page = [''Starter'', ''2nd'', ''3rd'']"
    by (simp add: first_header_def ranks_page_def)
  have t: "map trim [''Starter'', ''2nd'', ''3rd''] = [''Starter'', ''2nd'', ''3rd'']"
    by code_simp
  have tr: "map trim (first_header ranks_page) = [''Starter'', ''2nd'', ''3rd'']"
    unfolding h by (rule t)
  have r: "\<forall>t \<in> set (first_header ranks_page).
             trim t = [] \<or> trim t \<in> {''Starter'', ''2nd'', ''3rd'', ''4th'', ''5th''}"
    using t by (simp add: h)
  from labels_and_rows[of "[]" "[]" ranks_page "''atl''" "''2024-12-30T12:00:00.300Z''"] nr r
  have rk: "\<exists>chart. parse_tables ''atl'' ranks_page ''2024-12-30T12:00:00.300Z'' = Inr chart
         \<and> positions chart = []"
    by blast
  show ?thesis
    by (intro conjI) (rule n2, rule two_row_labels, rule l3, rule two, rule nr, rule tr, rule rk)
qed

text \<open>
  Claim C8. An entry of a parsed chart comes from a cell with a link, and its status is
  decided by the whole text of that cell, in this order: \<open>OUT\<close> when the text contains
  the letter \<open>O\<close>; otherwise \<open>DAY-TO-DAY\<close> when it contains \<open>DD\<close>; otherwise none.
\<close>

theorem injury_status_of_cell:
  assumes "parse_tables teamAbbr tables stamp = Inr chart"
    and "(pos, es) \<in> set (positions chart)"
    and "e \<in> set es"
  shows "\<exists>row \<in> set (concat (map tbody_rows tables)). \<exists>j < length row.
           links (row ! j) \<noteq> []
         \<and> cell_entry j (row ! j) = Some e
         \<and> injuryStatus e =
             (if CHR ''O'' \<in> set (cell_text (row ! j)) then Some ''OUT''
              else if (\<exists>pre post. cell_text (row ! j) = pre @ ''DD'' @ post) then Some ''DAY-TO-DAY''
              else None)"
proof -
  from parse_tables_entries[OF assms(1) assms(2)]
  obtain row where row: "row \<in> set (concat (map tbody_rows tables))" and es: "es = row_entries row"
    by blast
  from assms(3) es obtain j where j: "j < length row" and c: "cell_entry j (row ! j) = Some e"
    using in_row_entries by blast
  have l: "links (row ! j) \<noteq> []" using depth_cell_entry[OF c] by simp
  note s = status_cell_entry[OF c]
  show ?thesis
    apply (rule bexI[OF _ row])
    apply (rule exI[of _ j])
    apply (intro conjI)
       apply (rule j)
      apply (rule l)
     apply (rule c)
    apply (rule s)
    done
qed

theorem injury_status_of_cell_witness:
  "parse_tables ''atl'' gap_page ''2024-12-30T12:00:00.300Z'' = Inr (gap_chart ''2024-12-30T12:00:00.300Z'')
   \<and> (''PG'', gap_entries) \<in> set (positions (gap_chart ''2024-12-30T12:00:00.300Z''))
   \<and> gap_entries ! 1 \<in> set gap_entries
   \<and> injuryStatus (gap_entries ! 1) = Some ''OUT''
   \<and> (\<exists>row \<in> set (concat (map tbody_rows gap_page)). \<exists>j < length row.
         links (row ! j) \<noteq> []
       \<and> cell_entry j (row ! j) = Some (gap_entries ! 1)
       \<and> injuryStatus (gap_entries ! 1) =
             (if CHR ''O'' \<in> set (cell_text (row ! j)) then Some ''OUT''
              else if (\<exists>pre post. cell_text (row ! j) = pre @ ''DD'' @ post) then Some ''DAY-TO-DAY''
              else None))"
proof -
  have h1: "parse_tables ''atl'' gap_page ''2024-12-30T12:00:00.300Z'' = Inr (gap_chart ''2024-12-30T12:00:00.300Z'')"
    by (rule gap_parse)
  have h2: "(''PG'', gap_entries) \<in> set (positions (gap_chart ''2024-12-30T12:00:00.300Z''))"
    by (simp add: gap_chart_def)
  have h3: "gap_entries ! 1 \<in> set gap_entries" by (simp add: gap_entries_def)
  have s: "injuryStatus (gap_entries ! 1) = Some ''OUT''" by (simp add: gap_entries_def)
  note t = injury_status_of_cell[OF h1 h2 h3]
  show ?thesis
    by (intro conjI) (rule h1, rule h2, rule h3, rule s, rule t)
qed

text \<open>
  Claim C1, as the code has it. The entries of a position of a parsed chart are those of
  one body row: one entry for each cell with a link, in the order of the cells, with the
  column index of the cell among all the cells of the row, plus one, as its depth. So the
  depths are at least 1, strictly increasing and without duplicates; a cell without a
  link is passed over and leaves its rank out.
\<close>

theorem depths_follow_columns:
  assumes "parse_tables teamAbbr tables stamp = Inr chart"
    and "(pos, es) \<in> set (positions chart)"
  shows "\<exists>row \<in> set (concat (map tbody_rows tables)).
           es = List.map_filter (\<lambda>j. cell_entry j (row ! j)) [0..<length row]
         \<and> map depth es = map (\<lambda>j. j + 1) (filter (\<lambda>j. links (row ! j) \<noteq> []) [0..<length row])
         \<and> sorted_wrt (<) (map depth es)
         \<and> distinct (map depth es)
         \<and> (\<forall>e \<in> set es. 1 \<le> depth e)"
proof -
  from parse_tables_entries[OF assms]
  obtain row where row: "row \<in> set (concat (map tbody_rows tables))" and es: "es = row_entries row"
    by blast
  have a: "es = List.map_filter (\<lambda>j. cell_entry j (row ! j)) [0..<length row]"
    by (simp only: es row_entries_def)
  have b: "map depth es = map (\<lambda>j. j + 1) (filter (\<lambda>j. links (row ! j) \<noteq> []) [0..<length row])"
    by (simp add: es depth_row_entries)
  have c: "sorted_wrt (<) (map depth es)" unfolding es by (rule sorted_depth_row_entries)
  have d: "distinct (map depth es)" unfolding es by (rule distinct_depth_row_entries)
  have p: "\<forall>e \<in> set es. 1 \<le> depth e" unfolding es using positive_depth_row_entries by blast
  show ?thesis
    by (rule bexI[OF _ row]) (intro conjI, rule a, rule b, rule c, rule d, rule p)
qed

theorem depths_follow_columns_witness:
  "parse_tables ''atl'' gap_page ''2024-12-30T12:00:00.300Z'' = Inr (gap_chart ''2024-12-30T12:00:00.300Z'')
   \<and> (''PG'', gap_entries) \<in> set (positions (gap_chart ''2024-12-30T12:00:00.300Z''))
   \<and> map depth gap_entries = [1, 3]
   \<and> (\<exists>row \<in> set (concat (map tbody_rows gap_page)).
         gap_entries = List.map_filter (\<lambda>j. cell_entry j (row ! j)) [0..<length row]
       \<and> map depth gap_entries = map (\<lambda>j. j + 1) (filter (\<lambda>j. links (row ! j) \<noteq> []) [0..<length row])
       \<and> sorted_wrt (<) (map depth gap_entries)
       \<and> distinct (map depth gap_entries)
       \<and> (\<forall>e \<in> set gap_entries. 1 \<le> depth e))"
proof -
  have h1: "parse_tables ''atl'' gap_page ''2024-12-30T12:00:00.300Z'' = Inr (gap_chart ''2024-12-30T12:00:00.300Z'')"
    by (rule gap_parse)
  have h2: "(''PG'', gap_entries) \<in> set (positions (gap_chart ''2024-12-30T12:00:00.300Z''))"
    by (simp add: gap_chart_def)
  have d: "map depth gap_entries = [1, 3]" by (simp add: gap_entries_def)
  note t = depths_follow_columns[OF h1 h2]
  show ?thesis
    by (intro conjI) (rule h1, rule h2, rule d, rule t)
qed

text \<open>
  Claim C1, as it is worded, asks for depths without gaps. The row of the example page
  has a player in its first and in its third cell and none in the second: the parsed
  depths are 1 and 3.
\<close>

theorem depths_with_gap_counterexample:
  "parse_tables ''atl'' gap_page ''2024-12-30T12:00:00.300Z'' =
     Inr \<lparr>team = ''ATL'', timestamp = ''2024-12-30T12:00:00.300Z'',
           positions =
             [(''PG'',
               [\<lparr>depth = 1, name = ''Dyson Daniels'', espnId = Some ''4869342'',
                 injuryStatus = None\<rparr>,
                \<lparr>depth = 3, name = ''Trae Young'', espnId = Some ''4277905'',
                 injuryStatus = Some ''OUT''\<rparr>])]\<rparr>
   \<and> \<not> no_gaps
         [\<lparr>depth = 1, name = ''Dyson Daniels'', espnId = Some ''4869342'', injuryStatus = None\<rparr>,
          \<lparr>depth = 3, name = ''Trae Young'', espnId = Some ''4277905'',
           injuryStatus = Some ''OUT''\<rparr>]"
proof -
  have u: "[1 ..< 3] = [1, 2 :: nat]" by (simp add: upt_rec)
  have g: "\<not> no_gaps
         [\<lparr>depth = 1, name = ''Dyson Daniels'', espnId = Some ''4869342'', injuryStatus = None\<rparr>,
          \<lparr>depth = 3, name = ''Trae Young'', espnId = Some ''4277905'',
           injuryStatus = Some ''OUT''\<rparr>]"
    using u by (simp add: no_gaps_def)
  have p: "parse_tables ''atl'' gap_page ''2024-12-30T12:00:00.300Z'' =
     Inr \<lparr>team = ''ATL'', timestamp = ''2024-12-30T12:00:00.300Z'',
           positions =
             [(''PG'',
               [\<lparr>depth = 1, name = ''Dyson Daniels'', espnId = Some ''4869342'',
                 injuryStatus = None\<rparr>,
                \<lparr>depth = 3, name = ''Trae Young'', espnId = Some ''4277905'',
                 injuryStatus = Some ''OUT''\<rparr>])]\<rparr>"
    using gap_parse[of "''2024-12-30T12:00:00.300Z''"]
    by (simp only: gap_chart_def gap_entries_def)
  from p g show ?thesis by (rule conjI)
qed


section \<open>The cache\<close>

lemma team_atl: "TEAM_ID_TO_ESPN 1 = Some ''atl''"
  by (simp add: TEAM_ID_TO_ESPN_def)

lemma atl_cached: "depthChartCache atl_state ''atl'' = Some atl_record"
  by (simp add: atl_state_def)

lemma not_fresh:
  "depthChartCache st cacheKey = Some cached \<Longrightarrow> CACHE_TTL \<le> nowCheck w - cachedAt cached \<Longrightarrow>
   fresh w st cacheKey = None"
  by (simp add: fresh_def)

lemma is_fresh:
  "depthChartCache st cacheKey = Some cached \<Longrightarrow> nowCheck w - cachedAt cached < CACHE_TTL \<Longrightarrow>
   fresh w st cacheKey = Some cached"
  by (simp add: fresh_def)

lemma scrape_requests:
  "snd (scrapeESPNDepthChart teamAbbr w requested) = requested @ [depth_url teamAbbr]"
  by (simp add: scrapeESPNDepthChart_def Let_def)

lemma refresh_result:
  assumes "TEAM_ID_TO_ESPN teamId = Some espnCode" and "fresh w st espnCode = None"
  shows "getTeamDepthChart teamId w st =
           (case fst (scrapeESPNDepthChart espnCode w (requests st)) of
              Inr chart \<Rightarrow>
                (Some chart,
                 \<lparr>depthChartCache =
                    (depthChartCache st)(espnCode \<mapsto> \<lparr>data = chart, cachedAt = nowStore w\<rparr>),
                  requests = requests st @ [depth_url espnCode]\<rparr>)
            | Inl e \<Rightarrow> (None, st\<lparr>requests := requests st @ [depth_url espnCode]\<rparr>))"
proof -
  obtain res requested where s: "scrapeESPNDepthChart espnCode w (requests st) = (res, requested)"
    by (cases "scrapeESPNDepthChart espnCode w (requests st)")
  have r: "requested = requests st @ [depth_url espnCode]"
    using scrape_requests[of espnCode w "requests st"] s by simp
  show ?thesis using assms s r
    by (cases res) (simp_all add: getTeamDepthChart_def)
qed

text \<open>
  Claim C4. The time to live is six hours, 21 600 000 ms. For a team whose key has a
  record: while \<open>now - timestamp < CACHE_TTL\<close> the call returns the cached chart, sends
  no request and leaves the state as it is; once the six hours are over the call sends
  exactly one request, and when the scrape succeeds it returns the new chart and puts it
  in the place of the record, with the time of the store.
\<close>

theorem cache_fresh_or_refresh:
  assumes "TEAM_ID_TO_ESPN teamId = Some espnCode"
    and "depthChartCache st espnCode = Some cached"
  shows "CACHE_TTL = 21600000
       \<and> (nowCheck w - cachedAt cached < CACHE_TTL \<longrightarrow>
            getTeamDepthChart teamId w st = (Some (data cached), st))
       \<and> (CACHE_TTL \<le> nowCheck w - cachedAt cached \<longrightarrow>
            requests (snd (getTeamDepthChart teamId w st)) = requests st @ [depth_url espnCode]
          \<and> (\<forall>chart. fst (scrapeESPNDepthChart espnCode w (requests st)) = Inr chart \<longrightarrow>
                fst (getTeamDepthChart teamId w st) = Some chart
              \<and> depthChartCache (snd (getTeamDepthChart teamId w st))
                  = (depthChartCache st)(espnCode \<mapsto> \<lparr>data = chart, cachedAt = nowStore w\<rparr>)))"
proof -
  have a: "CACHE_TTL = 21600000" by (simp add: CACHE_TTL_def)
  have b: "getTeamDepthChart teamId w st = (Some (data cached), st)"
    if "nowCheck w - cachedAt cached < CACHE_TTL"
    using is_fresh[OF assms(2) that] assms(1) by (simp add: getTeamDepthChart_def)
  have c: "requests (snd (getTeamDepthChart teamId w st)) = requests st @ [depth_url espnCode]
          \<and> (\<forall>chart. fst (scrapeESPNDepthChart espnCode w (requests st)) = Inr chart \<longrightarrow>
                fst (getTeamDepthChart teamId w st) = Some chart
              \<and> depthChartCache (snd (getTeamDepthChart teamId w st))
                  = (depthChartCache st)(espnCode \<mapsto> \<lparr>data = chart, cachedAt = nowStore w\<rparr>))"
    if "CACHE_TTL \<le> nowCheck w - cachedAt cached"
    unfolding refresh_result[OF assms(1) not_fresh[OF assms(2) that]]
    by (cases "fst (scrapeESPNDepthChart espnCode w (requests st))") simp_all
  show ?thesis
    by (rule conjI[OF a conjI[OF impI[OF b] impI[OF c]]])
qed

theorem cache_fresh_or_refresh_witness:
  "TEAM_ID_TO_ESPN 1 = Some ''atl''
   \<and> depthChartCache atl_state ''atl'' = Some atl_record
   \<and> nowCheck early_world - cachedAt atl_record = CACHE_TTL - 1
   \<and> getTeamDepthChart 1 early_world atl_state = (Some atl_chart, atl_state)
   \<and> nowCheck late_world - cachedAt atl_record = CACHE_TTL + 1
   \<and> requests (snd (getTeamDepthChart 1 late_world atl_state))
       = [depth_url ''atl'', depth_url ''atl'']
   \<and> fst (getTeamDepthChart 1 late_world atl_state) = Some (gap_chart ''2024-12-30T12:00:00.300Z'')
   \<and> depthChartCache (snd (getTeamDepthChart 1 late_world atl_state))
       = [''atl'' \<mapsto> \<lparr>data = gap_chart ''2024-12-30T12:00:00.300Z'', cachedAt = 1735560000400\<rparr>]"
proof -
  note e = cache_fresh_or_refresh[OF team_atl atl_cached, of early_world]
  note l = cache_fresh_or_refresh[OF team_atl atl_cached, of late_world]
  have te: "nowCheck early_world - cachedAt atl_record = CACHE_TTL - 1"
    by (simp add: early_world_def atl_record_def CACHE_TTL_def)
  have tl: "nowCheck late_world - cachedAt atl_record = CACHE_TTL + 1"
    by (simp add: late_world_def atl_record_def CACHE_TTL_def)
  have s: "fst (scrapeESPNDepthChart ''atl'' late_world (requests atl_state))
             = Inr (gap_chart ''2024-12-30T12:00:00.300Z'')"
    using gap_scrape[of late_world "depth_url ''atl''" "''2024-12-30T12:00:00.300Z''" "requests atl_state"]
    by (simp add: late_world_def)
  have d: "data atl_record = atl_chart" by (simp add: atl_record_def)
  have r: "requests atl_state = [depth_url ''atl'']" by (simp add: atl_state_def)
  have m: "depthChartCache atl_state = [''atl'' \<mapsto> atl_record]" by (simp add: atl_state_def)
  have n: "nowStore late_world = 1735560000400" by (simp add: late_world_def)
  from e te d have 1: "getTeamDepthChart 1 early_world atl_state = (Some atl_chart, atl_state)"
    by simp
  from l tl r have 2: "requests (snd (getTeamDepthChart 1 late_world atl_state))
       = [depth_url ''atl'', depth_url ''atl'']"
    by simp
  from l tl s have 3: "fst (getTeamDepthChart 1 late_world atl_state)
       = Some (gap_chart ''2024-12-30T12:00:00.300Z'')"
    by simp
  from l tl s m n have 4: "depthChartCache (snd (getTeamDepthChart 1 late_world atl_state))
       = [''atl'' \<mapsto> \<lparr>data = gap_chart ''2024-12-30T12:00:00.300Z'', cachedAt = 1735560000400\<rparr>]"
    by simp
  show ?thesis
    by (intro conjI) (rule team_atl, rule atl_cached, rule te, rule 1, rule tl, rule 2, rule 3, rule 4)
qed

text \<open>
  Claim C5. When the record of a team is stale and the refresh fails, because the request
  is rejected or because the page has no table, the call returns \<open>null\<close> and the cache is
  exactly what it was, the stale record included. Both kinds of failure give the same
  return value.
\<close>

theorem failed_refresh_keeps_record:
  assumes "TEAM_ID_TO_ESPN teamId = Some espnCode"
    and "depthChartCache st espnCode = Some cached"
    and "CACHE_TTL \<le> nowCheck w - cachedAt cached"
    and "(\<exists>e. httpGet w (depth_url espnCode) = Inl e) \<or> httpGet w (depth_url espnCode) = Inr []"
  shows "fst (getTeamDepthChart teamId w st) = None
       \<and> depthChartCache (snd (getTeamDepthChart teamId w st)) = depthChartCache st
       \<and> depthChartCache (snd (getTeamDepthChart teamId w st)) espnCode = Some cached"
proof -
  from assms(4) obtain e where "fst (scrapeESPNDepthChart espnCode w (requests st)) = Inl e"
    by (auto simp: scrapeESPNDepthChart_def parse_tables_def Let_def)
  then have "getTeamDepthChart teamId w st
               = (None, st\<lparr>requests := requests st @ [depth_url espnCode]\<rparr>)"
    using refresh_result[OF assms(1) not_fresh[OF assms(2) assms(3)]] by simp
  then show ?thesis using assms(2) by simp
qed

theorem failed_refresh_keeps_record_witness:
  "TEAM_ID_TO_ESPN 1 = Some ''atl''
   \<and> depthChartCache atl_state ''atl'' = Some atl_record
   \<and> CACHE_TTL \<le> nowCheck offline_world - cachedAt atl_record
   \<and> httpGet offline_world (depth_url ''atl'') = Inl (Error ''Network Error'')
   \<and> fst (getTeamDepthChart 1 offline_world atl_state) = None
   \<and> depthChartCache (snd (getTeamDepthChart 1 offline_world atl_state)) = depthChartCache atl_state
   \<and> CACHE_TTL \<le> nowCheck tableless_world - cachedAt atl_record
   \<and> httpGet tableless_world (depth_url ''atl'') = Inr []
   \<and> fst (getTeamDepthChart 1 tableless_world atl_state) = None
   \<and> depthChartCache (snd (getTeamDepthChart 1 tableless_world atl_state)) = depthChartCache atl_state"
proof -
  have to: "CACHE_TTL \<le> nowCheck offline_world - cachedAt atl_record"
    by (simp add: offline_world_def atl_record_def CACHE_TTL_def)
  have tt: "CACHE_TTL \<le> nowCheck tableless_world - cachedAt atl_record"
    by (simp add: tableless_world_def atl_record_def CACHE_TTL_def)
  have ho: "httpGet offline_world (depth_url ''atl'') = Inl (Error ''Network Error'')"
    by (simp add: offline_world_def)
  have ht: "httpGet tableless_world (depth_url ''atl'') = Inr []"
    by (simp add: tableless_world_def)
  have fo: "(\<exists>e. httpGet offline_world (depth_url ''atl'') = Inl e)
              \<or> httpGet offline_world (depth_url ''atl'') = Inr []"
    using ho by simp
  have ft: "(\<exists>e. httpGet tableless_world (depth_url ''atl'') = Inl e)
              \<or> httpGet tableless_world (depth_url ''atl'') = Inr []"
    using ht by simp
  note o = failed_refresh_keeps_record[OF team_atl atl_cached to fo]
  note t = failed_refresh_keeps_record[OF team_atl atl_cached tt ft]
  from o have o1: "fst (getTeamDepthChart 1 offline_world atl_state) = None"
    and o2: "depthChartCache (snd (getTeamDepthChart 1 offline_world atl_state)) = depthChartCache atl_state"
    by simp_all
  from t have t1: "fst (getTeamDepthChart 1 tableless_world atl_state) = None"
    and t2: "depthChartCache (snd (getTeamDepthChart 1 tableless_world atl_state)) = depthChartCache atl_state"
    by simp_all
  show ?thesis
    by (intro conjI)
       (rule team_atl, rule atl_cached, rule to, rule ho, rule o1, rule o2, rule tt, rule ht,
        rule t1, rule t2)
qed

text \<open>
  Claim C10. A team id without an entry in \<open>TEAM_ID_TO_ESPN\<close> gets \<open>null\<close> at once: the
  state, that is the cache and the list of the requests sent, is the one before the call.
\<close>

theorem unknown_team_unavailable:
  assumes "TEAM_ID_TO_ESPN teamId = None"
  shows "getTeamDepthChart teamId w st = (None, st)"
  using assms by (simp add: getTeamDepthChart_def)

theorem unknown_team_unavailable_witness:
  "TEAM_ID_TO_ESPN 31 = None \<and> getTeamDepthChart 31 late_world atl_state = (None, atl_state)"
proof -
  have h: "TEAM_ID_TO_ESPN 31 = None" by (simp add: TEAM_ID_TO_ESPN_def)
  from unknown_team_unavailable[OF h, of late_world atl_state] h show ?thesis by simp
qed

end
